theory Spec2Isabelle
  imports Complex_Main
begin

section \<open>Array entries\<close>

text \<open>
  The entries of a numpy array of floats.  Finite values are idealised as real numbers
  (no rounding, no overflow); the IEEE special values are kept, because the function
  under study divides by a quantity that can be zero, and numpy then yields \<open>inf\<close> or
  \<open>nan\<close> (with a RuntimeWarning) instead of raising.  Signed zeros are not
  distinguished: every divisor of the function is a sum of squares or a mean of such
  sums, hence never a negative zero.
\<close>

datatype fl = Fin real | PInf | NInf | NaN

definition fl_sign :: "fl \<Rightarrow> real" where
  "fl_sign x = (case x of Fin a \<Rightarrow> sgn a | PInf \<Rightarrow> 1 | NInf \<Rightarrow> - 1 | NaN \<Rightarrow> 0)"

definition fl_inf :: "real \<Rightarrow> fl" where
  \<comment> \<open>the infinity of a given sign; an undetermined sign is \<open>nan\<close>\<close>
  "fl_inf s = (if s = 0 then NaN else if 0 < s then PInf else NInf)"

definition fl_add :: "fl \<Rightarrow> fl \<Rightarrow> fl" where
  "fl_add x y =
     (case (x, y) of
        (NaN, _) \<Rightarrow> NaN
      | (_, NaN) \<Rightarrow> NaN
      | (Fin a, Fin b) \<Rightarrow> Fin (a + b)
      | (Fin a, z) \<Rightarrow> z
      | (z, Fin b) \<Rightarrow> z
      | (PInf, PInf) \<Rightarrow> PInf
      | (NInf, NInf) \<Rightarrow> NInf
      | _ \<Rightarrow> NaN)"

definition fl_mul :: "fl \<Rightarrow> fl \<Rightarrow> fl" where
  "fl_mul x y =
     (case (x, y) of
        (NaN, _) \<Rightarrow> NaN
      | (_, NaN) \<Rightarrow> NaN
      | (Fin a, Fin b) \<Rightarrow> Fin (a * b)
      | _ \<Rightarrow> fl_inf (fl_sign x * fl_sign y))"

definition fl_div :: "fl \<Rightarrow> fl \<Rightarrow> fl" where
  \<comment> \<open>numpy's true division of floats: a zero divisor gives \<open>nan\<close> or an infinity\<close>
  "fl_div x y =
     (case (x, y) of
        (NaN, _) \<Rightarrow> NaN
      | (_, NaN) \<Rightarrow> NaN
      | (Fin a, Fin b) \<Rightarrow> (if b = 0 then fl_inf a else Fin (a / b))
      | (Fin a, _) \<Rightarrow> Fin 0
      | (z, Fin b) \<Rightarrow> (if b < 0 then fl_inf (- fl_sign z) else z)
      | _ \<Rightarrow> NaN)"

definition fl_sum :: "fl list \<Rightarrow> fl" where
  \<comment> \<open>the sum of a list of entries; exact, so the order of summation does not matter\<close>
  "fl_sum xs = foldr fl_add xs (Fin 0)"

definition is_fin :: "fl \<Rightarrow> bool" where
  "is_fin x = (case x of Fin _ \<Rightarrow> True | _ \<Rightarrow> False)"

definition fl_nonneg :: "fl \<Rightarrow> bool" where
  \<comment> \<open>\<open>x >= 0\<close> as numpy compares: false for \<open>nan\<close>\<close>
  "fl_nonneg x = (case x of Fin a \<Rightarrow> 0 \<le> a | PInf \<Rightarrow> True | _ \<Rightarrow> False)"

section \<open>Arrays\<close>

text \<open>
  A numpy array: its shape and its entries in row-major (C) order.  A 0-d array has
  shape \<open>[]\<close> and one entry.
\<close>

record ndarray =
  shape :: "nat list"
  data :: "fl list"

definition wf_nd :: "ndarray \<Rightarrow> bool" where
  "wf_nd a = (length (data a) = prod_list (shape a))"

definition ndim :: "ndarray \<Rightarrow> nat" where
  "ndim a = length (shape a)"

datatype exn = ValueError | IndexError | TypeError | ZeroDivisionError | OtherError

definition len_nd :: "ndarray \<Rightarrow> exn + nat" where
  \<comment> \<open>Python's \<open>len(a)\<close>: the first dimension; a 0-d array is unsized\<close>
  "len_nd a = (case shape a of [] \<Rightarrow> Inl TypeError | d # _ \<Rightarrow> Inr d)"

definition at2 :: "ndarray \<Rightarrow> nat \<Rightarrow> nat \<Rightarrow> fl" where
  \<comment> \<open>\<open>a[n, i]\<close> of a 2-d array\<close>
  "at2 a n i = data a ! (n * (shape a ! 1) + i)"

definition at3 :: "ndarray \<Rightarrow> nat \<Rightarrow> nat \<Rightarrow> nat \<Rightarrow> fl" where
  \<comment> \<open>\<open>a[n, j, i]\<close> of a 3-d array\<close>
  "at3 a n j i = data a ! ((n * (shape a ! 1) + j) * (shape a ! 2) + i)"

definition square :: "ndarray \<Rightarrow> ndarray" where
  \<comment> \<open>\<open>a**2\<close>, entry by entry\<close>
  "square a = \<lparr>shape = shape a, data = map (\<lambda>x. fl_mul x x) (data a)\<rparr>"

definition sum_axis0 :: "ndarray \<Rightarrow> ndarray" where
  \<comment> \<open>\<open>np.sum(a, axis=0)\<close>; numpy lets axis 0 pass for a 0-d array and returns it\<close>
  "sum_axis0 a =
     (case shape a of
        [] \<Rightarrow> a
      | d # ds \<Rightarrow>
          \<lparr>shape = ds,
           data = map (\<lambda>m. fl_sum (map (\<lambda>n. data a ! (n * prod_list ds + m)) [0..<d]))
                    [0..<prod_list ds]\<rparr>)"

definition mean_axis0 :: "ndarray \<Rightarrow> exn + ndarray" where
  \<comment> \<open>\<open>np.mean(a, axis=0)\<close>: the sum along axis 0 divided by the number of items
      \<open>a.shape[0]\<close>; for a 0-d array numpy raises (AxisError in current versions, a
      subclass of IndexError)\<close>
  "mean_axis0 a =
     (case shape a of
        [] \<Rightarrow> Inl IndexError
      | d # ds \<Rightarrow>
          Inr \<lparr>shape = ds,
               data = map (\<lambda>x. fl_div x (Fin (real d))) (data (sum_axis0 a))\<rparr>)"

definition squeeze :: "ndarray \<Rightarrow> ndarray" where
  \<comment> \<open>\<open>a.squeeze()\<close>: drops every axis of length one\<close>
  "squeeze a = \<lparr>shape = filter (\<lambda>d. d \<noteq> 1) (shape a), data = data a\<rparr>"

fun broadcast_rev :: "nat list \<Rightarrow> nat list \<Rightarrow> nat list option" where
  "broadcast_rev [] ys = Some ys"
| "broadcast_rev xs [] = Some xs"
| "broadcast_rev (x # xs) (y # ys) =
     (if x = y \<or> y = 1 then map_option ((#) x) (broadcast_rev xs ys)
      else if x = 1 then map_option ((#) y) (broadcast_rev xs ys)
      else None)"

fun src_index :: "nat list \<Rightarrow> nat list \<Rightarrow> nat \<Rightarrow> nat" where
  "src_index [] rs i = 0"
| "src_index (d # ds) [] i = 0"
| "src_index (d # ds) (r # rs) i =
     (if d = 1 then 0 else i mod r) + d * src_index ds rs (i div r)"

definition true_divide :: "ndarray \<Rightarrow> ndarray \<Rightarrow> exn + ndarray" where
  \<comment> \<open>\<open>a / b\<close> with numpy's broadcasting: shapes are aligned at their last axes, an axis
      of length one is stretched, any other mismatch raises ValueError.  Shapes are
      handled last axis first; \<open>src_index\<close> maps a position of the result to the
      position of the operand's entry it reads.\<close>
  "true_divide a b =
     (case broadcast_rev (rev (shape a)) (rev (shape b)) of
        None \<Rightarrow> Inl ValueError
      | Some rs \<Rightarrow>
          Inr \<lparr>shape = rev rs,
               data = map (\<lambda>i. fl_div (data a ! src_index (rev (shape a)) rs i)
                                       (data b ! src_index (rev (shape b)) rs i))
                        [0..<prod_list rs]\<rparr>)"

definition linspace :: "real \<Rightarrow> real \<Rightarrow> int \<Rightarrow> exn + ndarray" where
  \<comment> \<open>\<open>np.linspace(start, stop, num)\<close> for finite \<open>start\<close> and \<open>stop\<close>, as numpy
      computes it: \<open>arange(num) * step + start\<close> with \<open>step = (stop - start) / (num - 1)\<close>,
      the last entry then set to \<open>stop\<close>; a negative \<open>num\<close> raises ValueError\<close>
  "linspace start stop num =
     (if num < 0 then Inl ValueError
      else
        let n = nat num;
            dv = real_of_int (num - 1);
            delta = stop - start;
            y = map real [0..<n];
            y1 = (if 1 < num then
                    (let step = delta / dv
                     in if step = 0 then map (\<lambda>v. v / dv * delta) y
                        else map (\<lambda>v. v * step) y)
                  else map (\<lambda>v. v * delta) y);
            y2 = map (\<lambda>v. v + start) y1;
            y3 = (if 1 < num then y2[n - 1 := stop] else y2)
        in Inr \<lparr>shape = [n], data = map Fin y3\<rparr>)"

section \<open>The random generator\<close>

text \<open>
  \<open>np.random\<close> keeps one generator for the whole process.  Its state is modelled by the
  sequence of outcomes that \<open>np.random.binomial(n=1, p=0.5, ...)\<close> will produce from
  now on (\<open>True\<close> for the outcome 1); drawing consumes a prefix of it.  The state is
  not among the arguments of the Python function: the model passes it in and returns
  the state left behind.
\<close>

type_synonym rng = "nat \<Rightarrow> bool"

definition binomial :: "rng \<Rightarrow> int list \<Rightarrow> exn + (ndarray \<times> rng)" where
  \<comment> \<open>\<open>np.random.binomial(n=1, p=0.5, size=size)\<close>: an array of 0s and 1s; a negative
      dimension raises ValueError\<close>
  "binomial st dims =
     (if \<exists>d \<in> set dims. d < 0 then Inl ValueError
      else
        let shp = map nat dims; cnt = prod_list shp
        in Inr (\<lparr>shape = shp, data = map (\<lambda>m. if st m then Fin 1 else Fin 0) [0..<cnt]\<rparr>,
                \<lambda>m. st (m + cnt)))"

definition agree_upto :: "nat \<Rightarrow> rng \<Rightarrow> rng \<Rightarrow> bool" where
  \<comment> \<open>two generator states produce the same next \<open>c\<close> outcomes, as two generators
      seeded alike do\<close>
  "agree_upto c st st' = list_all (\<lambda>m. st m = st' m) [0..<c]"

definition times2_minus1 :: "ndarray \<Rightarrow> ndarray" where
  \<comment> \<open>\<open>a * 2 - 1\<close>\<close>
  "times2_minus1 a =
     \<lparr>shape = shape a, data = map (\<lambda>x. fl_add (fl_mul x (Fin 2)) (Fin (- 1))) (data a)\<rparr>"

section \<open>The graph library\<close>

text \<open>
  The graph and the filter bank come from the pygsp library, which is not part of the
  repository.  The function reads two attributes of the graph and makes two kinds of
  calls, \<open>pg.filters.Itersine(graph, Nf=..., overlap=...)\<close> and
  \<open>g.filter(s, method='chebyshev', order=...)\<close>; both are parameters of the model, and
  either may raise.
\<close>

record graph =
  N :: nat
  lmax :: real

record ('g, 'fb) pygsp =
  Itersine :: "'g graph_scheme \<Rightarrow> int \<Rightarrow> int \<Rightarrow> exn + 'fb"
  filter_cheby :: "'fb \<Rightarrow> ndarray \<Rightarrow> int \<Rightarrow> exn + ndarray"

section \<open>The estimator\<close>

text \<open>
  \<^verbatim>\<open>
  def estimate_graph_psd(graph, signal, n_rand=10, n_point=30):
      g = pg.filters.Itersine(graph, Nf=n_point, overlap=2)
      spectrum = np.linspace(0, graph.lmax, n_point)
      sig_filt = g.filter(signal, method='chebyshev', order=2*n_point)
      sig_dist = np.sum(sig_filt**2, axis=0)
      if sig_dist.ndim > 1:
          sig_dist = np.mean(sig_dist, axis=0).squeeze()
      rand_sig = np.random.binomial(n=1, p=0.5, size=[graph.N, n_rand]) * 2 - 1
      rand_sig_filered = g.filter(rand_sig, method='chebyshev', order=2*n_point)
      eig_dist = np.mean(np.sum(rand_sig_filered**2, axis=0), axis=0).squeeze()
      psd_values = sig_dist / eig_dist
      return spectrum, psd_values
  \<close>
  The result of the model is the returned pair together with the generator state left
  behind, or the exception raised.
\<close>

definition rand_sig :: "nat \<Rightarrow> int \<Rightarrow> rng \<Rightarrow> exn + (ndarray \<times> rng)" where
  \<comment> \<open>\<open>np.random.binomial(n=1, p=0.5, size=[graph.N, n_rand]) * 2 - 1\<close>\<close>
  "rand_sig nodes n_rand st =
     (case binomial st [int nodes, n_rand] of
        Inl e \<Rightarrow> Inl e
      | Inr (draws, st') \<Rightarrow> Inr (times2_minus1 draws, st'))"

definition sig_dist :: "ndarray \<Rightarrow> exn + ndarray" where
  \<comment> \<open>\<open>np.sum(sig_filt**2, axis=0)\<close>, followed by the mean along axis 0 and the
      squeeze when the sum has more than one axis\<close>
  "sig_dist sig_filt =
     (let s = sum_axis0 (square sig_filt)
      in if 1 < ndim s then
           (case mean_axis0 s of Inl e \<Rightarrow> Inl e | Inr m \<Rightarrow> Inr (squeeze m))
         else Inr s)"

definition eig_dist :: "ndarray \<Rightarrow> exn + ndarray" where
  \<comment> \<open>\<open>np.mean(np.sum(rand_sig_filered**2, axis=0), axis=0).squeeze()\<close>\<close>
  "eig_dist rand_sig_filered =
     (case mean_axis0 (sum_axis0 (square rand_sig_filered)) of
        Inl e \<Rightarrow> Inl e
      | Inr m \<Rightarrow> Inr (squeeze m))"

definition estimate_graph_psd ::
  "('g, 'fb) pygsp \<Rightarrow> 'g graph_scheme \<Rightarrow> ndarray \<Rightarrow> int \<Rightarrow> int \<Rightarrow> rng
     \<Rightarrow> exn + ((ndarray \<times> ndarray) \<times> rng)" where
  "estimate_graph_psd pg graph signal n_rand n_point st =
     (case Itersine pg graph n_point 2 of
        Inl e \<Rightarrow> Inl e
      | Inr g \<Rightarrow>
     (case linspace 0 (lmax graph) n_point of
        Inl e \<Rightarrow> Inl e
      | Inr spectrum \<Rightarrow>
     (case filter_cheby pg g signal (2 * n_point) of
        Inl e \<Rightarrow> Inl e
      | Inr sig_filt \<Rightarrow>
     (case sig_dist sig_filt of
        Inl e \<Rightarrow> Inl e
      | Inr sd \<Rightarrow>
     (case rand_sig (N graph) n_rand st of
        Inl e \<Rightarrow> Inl e
      | Inr (probe, st') \<Rightarrow>
     (case filter_cheby pg g probe (2 * n_point) of
        Inl e \<Rightarrow> Inl e
      | Inr rand_sig_filered \<Rightarrow>
     (case eig_dist rand_sig_filered of
        Inl e \<Rightarrow> Inl e
      | Inr ed \<Rightarrow>
     (case true_divide sd ed of
        Inl e \<Rightarrow> Inl e
      | Inr psd_values \<Rightarrow> Inr ((spectrum, psd_values), st')))))))))"

definition returned :: "exn + ('a \<times> rng) \<Rightarrow> exn + 'a" where
  \<comment> \<open>what the caller receives: the returned value, without the generator state\<close>
  "returned r = (case r of Inl e \<Rightarrow> Inl e | Inr (v, st') \<Rightarrow> Inr v)"

section \<open>The quantities the specification names\<close>

text \<open>
  The specification describes the result through two energies per band.  They are
  written here as the specification words them, with array indexing \<open>a[n, i]\<close> and
  \<open>a[n, j, i]\<close> (node \<open>n\<close>, column \<open>j\<close>, band \<open>i\<close>), independently of how the code
  computes them.
\<close>

definition energy2 :: "ndarray \<Rightarrow> nat \<Rightarrow> fl" where
  \<comment> \<open>the sum over all nodes of the squares of band \<open>i\<close> of a filtered vector\<close>
  "energy2 a i = fl_sum (map (\<lambda>n. fl_mul (at2 a n i) (at2 a n i)) [0..<shape a ! 0])"

definition energy3 :: "ndarray \<Rightarrow> nat \<Rightarrow> nat \<Rightarrow> fl" where
  \<comment> \<open>the same sum for column \<open>j\<close> of a filtered batch\<close>
  "energy3 a j i = fl_sum (map (\<lambda>n. fl_mul (at3 a n j i) (at3 a n j i)) [0..<shape a ! 0])"

definition column_mean :: "ndarray \<Rightarrow> nat \<Rightarrow> fl" where
  \<comment> \<open>the mean over the columns of the per-column sums\<close>
  "column_mean a i =
     fl_div (fl_sum (map (\<lambda>j. energy3 a j i) [0..<shape a ! 1])) (Fin (real (shape a ! 1)))"

definition signal_energy :: "ndarray \<Rightarrow> nat \<Rightarrow> fl" where
  "signal_energy sig_filt i =
     (if ndim sig_filt = 2 then energy2 sig_filt i else column_mean sig_filt i)"

definition reference_energy :: "ndarray \<Rightarrow> nat \<Rightarrow> fl" where
  "reference_energy rand_sig_filered i = column_mean rand_sig_filered i"

section \<open>Valid calls and what the library answers\<close>

definition valid_input :: "'g graph_scheme \<Rightarrow> ndarray \<Rightarrow> int \<Rightarrow> int \<Rightarrow> bool" where
  \<comment> \<open>the inputs the specification calls valid: positive \<open>n_rand\<close>, \<open>n_point\<close> and
      \<open>lmax\<close>, and a signal that is a vector of length \<open>N\<close> or a batch of at least one
      column with \<open>N\<close> rows, on a graph with at least one node\<close>
  "valid_input graph signal n_rand n_point =
     (1 \<le> n_rand \<and> 1 \<le> n_point \<and> 0 < lmax graph \<and> wf_nd signal \<and>
      (ndim signal = 1 \<or> ndim signal = 2) \<and> shape signal ! 0 = N graph \<and>
      0 \<notin> set (shape signal))"

definition filters_to ::
  "('g, 'fb) pygsp \<Rightarrow> 'g graph_scheme \<Rightarrow> ndarray \<Rightarrow> int \<Rightarrow> int \<Rightarrow> rng
     \<Rightarrow> ndarray \<Rightarrow> ndarray \<Rightarrow> bool" where
  \<comment> \<open>the library builds the bank and answers the two \<open>filter\<close> calls of this run with
      \<open>sf\<close> (for the signal) and \<open>rf\<close> (for the probe ensemble)\<close>
  "filters_to pg graph signal n_rand n_point st sf rf =
     (case Itersine pg graph n_point 2 of
        Inl e \<Rightarrow> False
      | Inr g \<Rightarrow>
          filter_cheby pg g signal (2 * n_point) = Inr sf \<and>
          (case rand_sig (N graph) n_rand st of
             Inl e \<Rightarrow> False
           | Inr (probe, st') \<Rightarrow> filter_cheby pg g probe (2 * n_point) = Inr rf))"

definition run_arrays ::
  "('g, 'fb) pygsp \<Rightarrow> 'g graph_scheme \<Rightarrow> ndarray \<Rightarrow> int \<Rightarrow> int \<Rightarrow> rng
     \<Rightarrow> ndarray \<Rightarrow> ndarray \<Rightarrow> ndarray \<Rightarrow> ndarray \<Rightarrow> bool" where
  \<comment> \<open>the arrays of a run: \<open>sf\<close> and \<open>rf\<close> are what the library returns, of whatever
      shape, and \<open>sd\<close> and \<open>ed\<close> are the two energy arrays the code computes from
      them (\<open>sig_dist\<close> and \<open>eig_dist\<close> in the source), the numerator and the
      divisor of the psd\<close>
  "run_arrays pg graph signal n_rand n_point st sf rf sd ed =
     (filters_to pg graph signal n_rand n_point st sf rf \<and> wf_nd sf \<and> wf_nd rf \<and>
      sig_dist sf = Inr sd \<and> eig_dist rf = Inr ed)"

definition nondegenerate :: "ndarray \<Rightarrow> bool" where
  \<comment> \<open>no band is degenerate: no reference energy is zero\<close>
  "nondegenerate ed = list_all (\<lambda>y. y \<noteq> Fin 0) (data ed)"

definition usable_divisors :: "ndarray \<Rightarrow> bool" where
  \<comment> \<open>no reference energy is zero or \<open>nan\<close>\<close>
  "usable_divisors ed = list_all (\<lambda>y. y \<noteq> Fin 0 \<and> y \<noteq> NaN) (data ed)"

definition finite_nd :: "ndarray \<Rightarrow> bool" where
  "finite_nd a = list_all is_fin (data a)"

definition zero_nd :: "ndarray \<Rightarrow> bool" where
  "zero_nd a = list_all (\<lambda>x. x = Fin 0) (data a)"

definition scale :: "real \<Rightarrow> ndarray \<Rightarrow> ndarray" where
  \<comment> \<open>\<open>c * a\<close>\<close>
  "scale c a = \<lparr>shape = shape a, data = map (fl_mul (Fin c)) (data a)\<rparr>"

section \<open>Small filter libraries\<close>

text \<open>
  Concrete libraries on which the statements below are exercised.  The first is the
  exact two-band filter bank of the graph with two nodes joined by
  an edge, whose Laplacian has the eigenvectors \<open>(1, 1)\<close> (eigenvalue 0) and
  \<open>(1, -1)\<close> (eigenvalue 2): band 0 keeps the component along \<open>(1, 1)\<close>, band 1 the
  component along \<open>(1, -1)\<close>.  Like pygsp it rejects a signal whose first dimension
  is not the number of nodes.
\<close>

definition two_node :: graph where
  "two_node = \<lparr>N = 2, lmax = 2\<rparr>"

definition ideal_filter :: "ndarray \<Rightarrow> exn + ndarray" where
  "ideal_filter s =
     (if shape s = [] \<or> hd (shape s) \<noteq> 2 \<or> 2 < ndim s then Inl ValueError
      else
        let k = prod_list (tl (shape s));
            x = (\<lambda>n j. data s ! (n * k + j));
            half = fl_mul (Fin (1 / 2));
            neg = fl_mul (Fin (- 1))
        in Inr \<lparr>shape = shape s @ [2],
                data = concat (map (\<lambda>n. concat (map (\<lambda>j.
                         [half (fl_add (x 0 j) (x 1 j)),
                          half (fl_add (x n j) (neg (x (1 - n) j)))]) [0..<k])) [0..<2])\<rparr>)"

definition ideal_bank :: "(unit, unit) pygsp" where
  "ideal_bank =
     \<lparr>Itersine = (\<lambda>graph Nf overlap.
        if N graph = 2 \<and> Nf = 2 then Inr () else Inl ValueError),
      filter_cheby = (\<lambda>g s order. ideal_filter s)\<rparr>"

text \<open>
  The second follows the conventions of pygsp's \<open>Filter.filter\<close> for the shape of its
  result.  The first dimension of the input must be the number of nodes (ValueError
  otherwise).  An input with one axis, or whose last axis has a length other than 1
  and the number \<open>Nf\<close> of filters, is a batch of signals and is analysed: the result
  has the axes nodes, signals, filters.  An input whose last axis has length \<open>Nf\<close> is
  read as one signal of \<open>Nf\<close> features and is synthesised: the filtered features are
  summed.  Every result is returned squeezed.  The bank cannot be built with fewer
  than one filter (IndexError) or on a graph whose \<open>lmax\<close> is zero
  (ZeroDivisionError).  The filters themselves are constant gains, \<open>b + 1\<close> for
  band \<open>b\<close>.
\<close>

definition gain :: "nat \<Rightarrow> real" where
  "gain b = real (b + 1)"

definition pygsp_filter :: "nat \<Rightarrow> nat \<Rightarrow> ndarray \<Rightarrow> exn + ndarray" where
  "pygsp_filter nodes Nf s =
     (case shape s of
        [] \<Rightarrow> Inl IndexError
      | d # ds \<Rightarrow>
          if d \<noteq> nodes then Inl ValueError
          else
            let expand = (ds = [] \<or> (last (shape s) \<noteq> 1 \<and> last (shape s) \<noteq> Nf));
                shp1 = (if expand then shape s @ [1] else shape s)
            in if (expand \<and> ndim s = 3) \<or> 3 < length shp1 then Inl ValueError
               else
                 let shp3 = (if length shp1 < 3 then [hd shp1, 1, last shp1] else shp1);
                     n_signals = shp3 ! 1;
                     n_features_in = shp3 ! 2
                 in Inr (squeeze
                      (if n_features_in = 1 then
                         \<lparr>shape = [nodes, n_signals, Nf],
                          data = concat (map (\<lambda>x. map (\<lambda>b. fl_mul (Fin (gain b)) x) [0..<Nf])
                                          (data s))\<rparr>
                       else
                         \<lparr>shape = [nodes, n_signals, 1],
                          data = map (\<lambda>m. fl_sum (map (\<lambda>b. fl_mul (Fin (gain b))
                                                     (data s ! (m * Nf + b))) [0..<Nf]))
                                   [0..<nodes * n_signals]\<rparr>)))"

definition gain_bank :: "('g, nat \<times> nat) pygsp" where
  "gain_bank =
     \<lparr>Itersine = (\<lambda>graph Nf overlap.
        if Nf < 1 then Inl IndexError
        else if lmax graph = 0 then Inl ZeroDivisionError
        else Inr (N graph, nat Nf)),
      filter_cheby = (\<lambda>g s order. pygsp_filter (fst g) (snd g) s)\<rparr>"

definition vector_only :: "('g, unit) pygsp" where
  \<comment> \<open>a library that filters single vectors only (unchanged) and rejects batches\<close>
  "vector_only =
     \<lparr>Itersine = (\<lambda>graph Nf overlap. Inr ()),
      filter_cheby = (\<lambda>g s order. if ndim s = 1 then Inr s else Inl ValueError)\<rparr>"

definition arr :: "nat list \<Rightarrow> real list \<Rightarrow> ndarray" where
  \<comment> \<open>an array of finite entries, given in row-major order\<close>
  "arr shp xs = \<lparr>shape = shp, data = map Fin xs\<rparr>"

definition sq_class :: "fl \<Rightarrow> bool" where
  \<comment> \<open>the values a square, a sum of squares or a mean of such sums can take\<close>
  "sq_class x = (case x of Fin a \<Rightarrow> 0 \<le> a | PInf \<Rightarrow> True | NInf \<Rightarrow> False | NaN \<Rightarrow> True)"

definition fin_nonneg :: "fl \<Rightarrow> bool" where
  "fin_nonneg x = (case x of Fin a \<Rightarrow> 0 \<le> a | _ \<Rightarrow> False)"

section \<open>How the code computes the energies\<close>

lemma idx2: "n' < n \<Longrightarrow> i < p \<Longrightarrow> n' * p + i < n * (p::nat)"
proof -
  assume a: "n' < n" "i < p"
  then have "n' * p + i < n' * p + p" by simp
  also have "\<dots> = Suc n' * p" by simp
  also have "\<dots> \<le> n * p" using a(1) by (intro mult_le_mono1) simp
  finally show ?thesis .
qed

lemma sum_square2:
  assumes "wf_nd a" "shape a = [n, p]"
  shows "sum_axis0 (square a) = \<lparr>shape = [p], data = map (energy2 a) [0..<p]\<rparr>"
proof -
  have len: "length (data a) = n * p" using assms by (simp add: wf_nd_def)
  have "map (\<lambda>m. fl_sum (map (\<lambda>n'. map (\<lambda>x. fl_mul x x) (data a) ! (n' * p + m)) [0..<n])) [0..<p]
        = map (energy2 a) [0..<p]"
  proof (rule map_cong[OF refl])
    fix m assume "m \<in> set [0..<p]"
    then have m: "m < p" by simp
    have "map (\<lambda>n'. map (\<lambda>x. fl_mul x x) (data a) ! (n' * p + m)) [0..<n]
          = map (\<lambda>n'. fl_mul (at2 a n' m) (at2 a n' m)) [0..<n]"
      by (rule map_cong[OF refl]) (simp add: at2_def assms(2) len idx2 m)
    then show "fl_sum (map (\<lambda>n'. map (\<lambda>x. fl_mul x x) (data a) ! (n' * p + m)) [0..<n]) = energy2 a m"
      by (simp only: energy2_def assms(2) nth_Cons_0)
  qed
  then show ?thesis
    by (simp add: sum_axis0_def square_def assms(2))
qed

lemma sum_square3:
  assumes "wf_nd a" "shape a = [n, k, p]"
  shows "sum_axis0 (square a) =
           \<lparr>shape = [k, p], data = map (\<lambda>m. energy3 a (m div p) (m mod p)) [0..<k * p]\<rparr>"
proof -
  have len: "length (data a) = n * (k * p)" using assms by (simp add: wf_nd_def)
  have "map (\<lambda>m. fl_sum (map (\<lambda>n'. map (\<lambda>x. fl_mul x x) (data a) ! (n' * (k * p) + m)) [0..<n]))
          [0..<k * p]
        = map (\<lambda>m. energy3 a (m div p) (m mod p)) [0..<k * p]"
  proof (rule map_cong[OF refl])
    fix m assume "m \<in> set [0..<k * p]"
    then have m: "m < k * p" by simp
    have split: "\<And>n'. (n' * k + m div p) * p + m mod p = n' * (k * p) + m"
      by (simp add: algebra_simps)
    have "map (\<lambda>n'. map (\<lambda>x. fl_mul x x) (data a) ! (n' * (k * p) + m)) [0..<n]
          = map (\<lambda>n'. fl_mul (at3 a n' (m div p) (m mod p)) (at3 a n' (m div p) (m mod p))) [0..<n]"
      by (rule map_cong[OF refl]) (simp add: at3_def assms(2) len idx2 m split)
    then show "fl_sum (map (\<lambda>n'. map (\<lambda>x. fl_mul x x) (data a) ! (n' * (k * p) + m)) [0..<n])
               = energy3 a (m div p) (m mod p)"
      by (simp only: energy3_def assms(2) nth_Cons_0)
  qed
  then show ?thesis
    by (simp add: sum_axis0_def square_def assms(2))
qed

lemma mean_sum_square3:
  assumes "wf_nd a" "shape a = [n, k, p]"
  shows "mean_axis0 (sum_axis0 (square a)) = Inr \<lparr>shape = [p], data = map (column_mean a) [0..<p]\<rparr>"
proof -
  let ?s = "\<lparr>shape = [k, p], data = map (\<lambda>m. energy3 a (m div p) (m mod p)) [0..<k * p]\<rparr>"
  have s: "sum_axis0 (square a) = ?s" by (rule sum_square3[OF assms])
  have "map (\<lambda>i. fl_sum (map (\<lambda>j. data ?s ! (j * p + i)) [0..<k])) [0..<p]
        = map (\<lambda>i. fl_sum (map (\<lambda>j. energy3 a j i) [0..<k])) [0..<p]"
  proof (rule map_cong[OF refl])
    fix i assume "i \<in> set [0..<p]"
    then have i: "i < p" by simp
    have "map (\<lambda>j. data ?s ! (j * p + i)) [0..<k] = map (\<lambda>j. energy3 a j i) [0..<k]"
      by (rule map_cong[OF refl]) (use i in \<open>simp add: idx2 div_mult_self3\<close>)
    then show "fl_sum (map (\<lambda>j. data ?s ! (j * p + i)) [0..<k]) = fl_sum (map (\<lambda>j. energy3 a j i) [0..<k])"
      by (simp only:)
  qed
  then have "data (sum_axis0 ?s) = map (\<lambda>i. fl_sum (map (\<lambda>j. energy3 a j i) [0..<k])) [0..<p]"
    by (simp add: sum_axis0_def)
  then show ?thesis
    unfolding s by (simp add: mean_axis0_def column_mean_def assms(2) comp_def)
qed

lemma squeeze_1d:
  "squeeze \<lparr>shape = [p], data = xs\<rparr> = \<lparr>shape = (if p = 1 then [] else [p]), data = xs\<rparr>"
  by (simp add: squeeze_def)

lemma sig_dist_vector:
  assumes "wf_nd sf" "shape sf = [n, p]"
  shows "sig_dist sf = Inr \<lparr>shape = [p], data = map (signal_energy sf) [0..<p]\<rparr>"
proof -
  have "signal_energy sf = energy2 sf"
    by (rule ext) (simp add: signal_energy_def ndim_def assms(2))
  then show ?thesis
    by (simp add: sig_dist_def sum_square2[OF assms] ndim_def)
qed

lemma sig_dist_batch:
  assumes "wf_nd sf" "shape sf = [n, k, p]"
  shows "sig_dist sf =
           Inr \<lparr>shape = (if p = 1 then [] else [p]), data = map (signal_energy sf) [0..<p]\<rparr>"
proof -
  have e: "signal_energy sf = column_mean sf"
    by (rule ext) (simp add: signal_energy_def ndim_def assms(2))
  have "mean_axis0 (sum_axis0 (square sf)) = Inr \<lparr>shape = [p], data = map (column_mean sf) [0..<p]\<rparr>"
    by (rule mean_sum_square3[OF assms])
  moreover have "ndim (sum_axis0 (square sf)) = 2"
    by (simp add: sum_square3[OF assms] ndim_def)
  ultimately show ?thesis
    by (simp add: sig_dist_def Let_def squeeze_1d e)
qed

lemma eig_dist_batch:
  assumes "wf_nd rf" "shape rf = [n, r, p]"
  shows "eig_dist rf =
           Inr \<lparr>shape = (if p = 1 then [] else [p]), data = map (reference_energy rf) [0..<p]\<rparr>"
proof -
  have e: "reference_energy rf = column_mean rf"
    by (rule ext) (simp add: reference_energy_def)
  show ?thesis
    by (simp add: eig_dist_def mean_sum_square3[OF assms] squeeze_1d e)
qed

lemma broadcast_rev_same: "broadcast_rev xs xs = Some xs"
  by (induction xs) simp_all

lemma src_index_same: "i < prod_list xs \<Longrightarrow> src_index xs xs i = i"
proof (induction xs arbitrary: i)
  case Nil
  then show ?case by simp
next
  case (Cons x xs)
  have x: "0 < x" using Cons.prems by (cases x) simp_all
  have "i div x < prod_list xs"
    using Cons.prems x by (simp add: less_mult_imp_div_less mult.commute)
  then have "src_index xs xs (i div x) = i div x" by (rule Cons.IH)
  then show ?case by simp
qed

lemma true_divide_same:
  assumes "shape a = shape b"
  shows "true_divide a b =
           Inr \<lparr>shape = shape a,
                data = map (\<lambda>i. fl_div (data a ! i) (data b ! i)) [0..<prod_list (shape a)]\<rparr>"
proof -
  have "map (\<lambda>i. fl_div (data a ! src_index (rev (shape a)) (rev (shape a)) i)
                        (data b ! src_index (rev (shape a)) (rev (shape a)) i))
          [0..<prod_list (rev (shape a))]
        = map (\<lambda>i. fl_div (data a ! i) (data b ! i)) [0..<prod_list (rev (shape a))]"
    by (rule map_cong[OF refl]) (simp add: src_index_same)
  then show ?thesis
    by (simp add: true_divide_def assms[symmetric] broadcast_rev_same)
qed

lemma true_divide_1_0:
  assumes "shape a = [1]" "shape b = []"
  shows "true_divide a b = Inr \<lparr>shape = [1], data = [fl_div (data a ! 0) (data b ! 0)]\<rparr>"
  by (simp add: true_divide_def assms)

lemma psd_divide:
  assumes "shape sd = [p] \<or> shape sd = (if p = 1 then [] else [p])"
      and "shape ed = (if p = 1 then [] else [p])"
      and "data sd = map f [0..<p]" "data ed = map h [0..<p]"
  shows "true_divide sd ed =
           Inr \<lparr>shape = shape sd, data = map (\<lambda>i. fl_div (f i) (h i)) [0..<p]\<rparr>"
proof (cases "shape sd = shape ed")
  case True
  have "prod_list (shape sd) = p" using assms(1) by (auto split: if_splits)
  moreover have "map (\<lambda>i. fl_div (map f [0..<p] ! i) (map h [0..<p] ! i)) [0..<p]
                 = map (\<lambda>i. fl_div (f i) (h i)) [0..<p]"
    by (rule map_cong[OF refl]) simp
  ultimately show ?thesis by (simp add: true_divide_same[OF True] assms(3,4))
next
  case False
  then have p: "p = 1" and sd: "shape sd = [1]" and ed: "shape ed = []"
    using assms(1,2) by (auto split: if_splits)
  show ?thesis by (simp add: true_divide_1_0[OF sd ed] assms(3,4) p sd)
qed

lemma linspace_returns: "0 \<le> num \<Longrightarrow> \<exists>sp. linspace a b num = Inr sp"
  by (simp add: linspace_def Let_def)

lemma run:
  assumes np: "0 \<le> n_point"
    and ft: "filters_to pg graph signal n_rand n_point st sf rf"
    and sf: "wf_nd sf" "shape sf = [n, nat n_point] \<or> shape sf = [n, k, nat n_point]"
    and rf: "wf_nd rf" "shape rf = [n', r, nat n_point]"
    and sp: "linspace 0 (lmax graph) n_point = Inr spectrum"
  shows "returned (estimate_graph_psd pg graph signal n_rand n_point st) =
           Inr (spectrum,
                \<lparr>shape = (if nat n_point = 1 \<and> length (shape sf) = 3 then [] else [nat n_point]),
                 data = map (\<lambda>i. fl_div (signal_energy sf i) (reference_energy rf i))
                          [0..<nat n_point]\<rparr>)"
proof -
  let ?p = "nat n_point"
  obtain g probe st' where g: "Itersine pg graph n_point 2 = Inr g"
    and fs: "filter_cheby pg g signal (2 * n_point) = Inr sf"
    and rs: "rand_sig (N graph) n_rand st = Inr (probe, st')"
    and fr: "filter_cheby pg g probe (2 * n_point) = Inr rf"
    using ft by (auto simp: filters_to_def split: sum.splits)
  obtain sd where sd: "sig_dist sf = Inr sd"
    and sds: "shape sd = (if ?p = 1 \<and> length (shape sf) = 3 then [] else [?p])"
    and sdd: "data sd = map (signal_energy sf) [0..<?p]"
    using sf(2)
  proof
    assume h: "shape sf = [n, ?p]"
    show ?thesis by (rule that[OF sig_dist_vector[OF sf(1) h]]) (simp_all add: h)
  next
    assume h: "shape sf = [n, k, ?p]"
    show ?thesis by (rule that[OF sig_dist_batch[OF sf(1) h]]) (simp_all add: h)
  qed
  have ed: "eig_dist rf = Inr \<lparr>shape = (if ?p = 1 then [] else [?p]),
                                data = map (reference_energy rf) [0..<?p]\<rparr>"
    (is "_ = Inr ?ed")
    by (rule eig_dist_batch[OF rf])
  have "true_divide sd ?ed =
          Inr \<lparr>shape = shape sd,
               data = map (\<lambda>i. fl_div (signal_energy sf i) (reference_energy rf i)) [0..<?p]\<rparr>"
    by (rule psd_divide) (auto simp: sds sdd)
  then show ?thesis
    by (simp add: estimate_graph_psd_def returned_def g sp fs sd rs fr ed sds)
qed

section \<open>Arithmetic of the entries\<close>

lemma sq_class_square: "sq_class (fl_mul x x)"
  by (cases x) (simp_all add: sq_class_def fl_mul_def fl_inf_def fl_sign_def)

lemma sq_class_add: "sq_class x \<Longrightarrow> sq_class y \<Longrightarrow> sq_class (fl_add x y)"
  by (cases x; cases y) (simp_all add: sq_class_def fl_add_def)

lemma sq_class_div_count: "sq_class x \<Longrightarrow> sq_class (fl_div x (Fin (real k)))"
  by (cases x) (simp_all add: sq_class_def fl_div_def fl_inf_def)

lemma fl_square_scale:
  "fl_mul (fl_mul (Fin c) x) (fl_mul (Fin c) x) = fl_mul (Fin (c * c)) (fl_mul x x)"
  by (cases x)
    (auto simp: fl_mul_def fl_inf_def fl_sign_def sgn_if zero_less_mult_iff mult_less_0_iff
      split: if_splits)

lemma fl_add_scale:
  "fl_add (fl_mul (Fin a) x) (fl_mul (Fin a) y) = fl_mul (Fin a) (fl_add x y)"
  by (cases x; cases y)
    (auto simp: fl_mul_def fl_add_def fl_inf_def fl_sign_def sgn_if algebra_simps
      split: if_splits)

lemma fl_sum_scale: "fl_sum (map (fl_mul (Fin a)) xs) = fl_mul (Fin a) (fl_sum xs)"
proof (induction xs)
  case Nil
  then show ?case by (simp add: fl_sum_def fl_mul_def)
next
  case (Cons x xs)
  then show ?case by (simp add: fl_sum_def fl_add_scale)
qed

lemma fl_div_scale: "fl_div (fl_mul (Fin a) x) y = fl_mul (Fin a) (fl_div x y)"
  by (cases x; cases y)
    (auto simp: fl_mul_def fl_div_def fl_inf_def fl_sign_def sgn_if zero_less_mult_iff
      mult_less_0_iff split: if_splits)

lemma fl_sum_closed:
  assumes "Q (Fin 0)" "\<And>x y. Q x \<Longrightarrow> Q y \<Longrightarrow> Q (fl_add x y)" "list_all Q xs"
  shows "Q (fl_sum xs)"
  using assms(3) by (induction xs) (simp_all add: fl_sum_def assms(1,2))

lemma nonneg_quotient:
  "fin_nonneg x \<Longrightarrow> fin_nonneg y \<Longrightarrow> y \<noteq> Fin 0 \<Longrightarrow> fl_nonneg (fl_div x y)"
  by (cases x; cases y) (simp_all add: fin_nonneg_def fl_nonneg_def fl_div_def)

lemma sq_class_zero: "sq_class (Fin 0)"
  by (simp add: sq_class_def)

section \<open>The spectrum\<close>

lemma linspace_one: "linspace 0 b 1 = Inr (arr [1] [0])"
  by (simp add: linspace_def arr_def)

lemma linspace_many0:
  assumes "2 \<le> num"
  shows "linspace 0 b num = Inr (arr [nat num]
     ((map (\<lambda>v. v + 0) (map (\<lambda>v. v * (b / real_of_int (num - 1))) (map real [0..<nat num])))[nat num - 1 := b]))"
proof -
  have a: "\<not> num < 0" "1 < num" using assms by simp_all
  have same: "map (\<lambda>v. v / real_of_int (num - 1) * (b - 0)) (map real [0..<nat num])
     = map (\<lambda>v. v * ((b - 0) / real_of_int (num - 1))) (map real [0..<nat num])"
    by simp
  show ?thesis
    unfolding linspace_def Let_def arr_def
    apply (simp only: a if_True if_False same if_cancel)
    apply (simp only: diff_zero)
    done
qed

lemma linspace_many:
  assumes "2 \<le> num"
  shows "\<exists>xs. linspace 0 b num = Inr (arr [nat num] xs) \<and> length xs = nat num \<and>
           (\<forall>i < nat num. xs ! i = real i * b / real_of_int (num - 1))"
proof -
  let ?n = "nat num"
  let ?dv = "real_of_int (num - 1)"
  let ?ys = "map (\<lambda>v. v + 0) (map (\<lambda>v. v * (b / ?dv)) (map real [0..<?n]))"
  have dv: "?dv \<noteq> 0" using assms by simp
  have last: "real (?n - 1) = ?dv" using assms by (simp add: of_nat_diff)
  have l: "linspace 0 b num = Inr (arr [?n] (?ys[?n - 1 := b]))"
    by (rule linspace_many0[OF assms])
  have len: "length (?ys[?n - 1 := b]) = ?n" by simp
  have "(?ys[?n - 1 := b]) ! i = real i * b / ?dv" if i: "i < ?n" for i
  proof (cases "i = ?n - 1")
    case True
    have "?n - 1 < length ?ys" using i by simp
    then have "(?ys[?n - 1 := b]) ! (?n - 1) = b" by (rule nth_list_update_eq)
    moreover have "real (?n - 1) * b / ?dv = b" unfolding last using dv by simp
    ultimately show ?thesis unfolding True by (simp only:)
  next
    case False
    then have "(?ys[?n - 1 := b]) ! i = ?ys ! i" by (simp only: nth_list_update_neq not_sym)
    also have "\<dots> = real i * b / ?dv" using i by simp
    finally show ?thesis .
  qed
  with l len show ?thesis by blast
qed

lemma linspace_sorted:
  assumes "2 \<le> num" "0 \<le> b" "length xs = nat num"
    and "\<forall>i < nat num. xs ! i = real i * b / real_of_int (num - 1)"
  shows "sorted xs"
proof -
  have dv: "0 < real_of_int (num - 1)" using assms(1) by simp
  show ?thesis
    unfolding sorted_iff_nth_mono
  proof (intro allI impI)
    fix i j assume ij: "i \<le> j" "j < length xs"
    then have "real i * b \<le> real j * b" using assms(2) by (simp add: mult_right_mono)
    then have "real i * b / real_of_int (num - 1) \<le> real j * b / real_of_int (num - 1)"
      using dv by (simp add: divide_right_mono)
    then show "xs ! i \<le> xs ! j" using ij assms(3,4) by simp
  qed
qed

section \<open>The generator, failing calls and a squeezed probe axis\<close>

lemma rand_sig_agree:
  assumes "agree_upto (nodes * nat n_rand) st st'"
  shows "returned (rand_sig nodes n_rand st) = returned (rand_sig nodes n_rand st')"
proof -
  have "map (\<lambda>m. if st m then Fin 1 else Fin 0) [0..<nodes * nat n_rand]
        = map (\<lambda>m. if st' m then Fin 1 else Fin 0) [0..<nodes * nat n_rand]"
    by (rule map_cong[OF refl]) (use assms in \<open>simp add: agree_upto_def list_all_iff\<close>)
  then have "binomial st [int nodes, n_rand] = Inl ValueError \<and>
               binomial st' [int nodes, n_rand] = Inl ValueError
             \<or> (\<exists>a s1 s2. binomial st [int nodes, n_rand] = Inr (a, s1) \<and>
                   binomial st' [int nodes, n_rand] = Inr (a, s2))"
    by (simp only: binomial_def Let_def) simp
  then show ?thesis
    by (auto simp: rand_sig_def returned_def)
qed

lemma sig_dist_total: "\<exists>sd. sig_dist sf = Inr sd"
proof (cases "shape (sum_axis0 (square sf))")
  case Nil
  then show ?thesis by (simp add: sig_dist_def Let_def ndim_def)
next
  case (Cons d ds)
  then show ?thesis by (simp add: sig_dist_def Let_def ndim_def mean_axis0_def)
qed

lemma rand_sig_negative: "n_rand < 0 \<Longrightarrow> rand_sig nodes n_rand st = Inl ValueError"
  by (simp add: rand_sig_def binomial_def)

lemma linspace_negative: "num < 0 \<Longrightarrow> linspace a b num = Inl ValueError"
  by (simp add: linspace_def)

lemma times2_minus1_entry:
  "fl_add (fl_mul (if b then Fin 1 else Fin 0) (Fin 2)) (Fin (- 1)) = (if b then Fin 1 else Fin (- 1))"
  by (simp add: fl_add_def fl_mul_def)

lemma eig_dist_two_axes:
  assumes "wf_nd rf" "shape rf = [n, p]"
  shows "eig_dist rf =
           Inr \<lparr>shape = [], data = [fl_div (fl_sum (map (energy2 rf) [0..<p])) (Fin (real p))]\<rparr>"
proof -
  have eq: "map ((!) (map (energy2 rf) [0..<p])) [0..<p] = map (energy2 rf) [0..<p]"
    using map_nth[of "map (energy2 rf) [0..<p]"] by simp
  have "sum_axis0 \<lparr>shape = [p], data = map (energy2 rf) [0..<p]\<rparr>
             = \<lparr>shape = [], data = [fl_sum (map (energy2 rf) [0..<p])]\<rparr>"
    by (simp add: sum_axis0_def) (simp only: eq)
  then have "mean_axis0 \<lparr>shape = [p], data = map (energy2 rf) [0..<p]\<rparr>
             = Inr \<lparr>shape = [],
                    data = [fl_div (fl_sum (map (energy2 rf) [0..<p])) (Fin (real p))]\<rparr>"
    by (simp add: mean_axis0_def)
  then show ?thesis
    unfolding eig_dist_def sum_square2[OF assms] by (simp add: squeeze_def)
qed

lemma true_divide_scalar:
  assumes "shape a = [p]" "shape b = []"
  shows "true_divide a b =
           Inr \<lparr>shape = [p], data = map (\<lambda>i. fl_div (data a ! i) (data b ! 0)) [0..<p]\<rparr>"
proof -
  have "map (\<lambda>i. fl_div (data a ! src_index [p] [p] i) (data b ! src_index [] [p] i)) [0..<p]
        = map (\<lambda>i. fl_div (data a ! i) (data b ! 0)) [0..<p]"
    by (rule map_cong[OF refl]) (use src_index_same[of _ "[p]"] in auto)
  then show ?thesis
    by (simp add: true_divide_def assms)
qed

section \<open>Energies of arrays of any shape\<close>

text \<open>
  The lemmas of this section make no assumption on the shapes the library returns:
  a property of the entries that squares have and that sums and divisions by a count
  keep holds of every entry of the two energy arrays, and a property of the quotients
  holds of every entry of the psd, whatever numpy's broadcasting pairs.
\<close>

lemma squeeze_wf: "wf_nd a \<Longrightarrow> wf_nd (squeeze a)"
proof -
  have "prod_list (filter (\<lambda>d. d \<noteq> 1) xs) = prod_list xs" for xs :: "nat list"
    by (induction xs) simp_all
  then show "wf_nd a \<Longrightarrow> wf_nd (squeeze a)"
    by (simp add: wf_nd_def squeeze_def)
qed

lemma sum_axis0_closed:
  assumes "wf_nd a" "list_all Q (data a)"
    and "Q (Fin 0)" "\<And>x y. Q x \<Longrightarrow> Q y \<Longrightarrow> Q (fl_add x y)"
  shows "wf_nd (sum_axis0 a) \<and> list_all Q (data (sum_axis0 a))"
proof (cases "shape a")
  case Nil
  then show ?thesis using assms(1,2) by (simp add: sum_axis0_def)
next
  case (Cons d ds)
  have len: "length (data a) = d * prod_list ds"
    using assms(1) Cons by (simp add: wf_nd_def)
  have "Q (fl_sum (map (\<lambda>n. data a ! (n * prod_list ds + m)) [0..<d]))"
    if m: "m < prod_list ds" for m
  proof (rule fl_sum_closed[of Q, OF assms(3,4)])
    show "list_all Q (map (\<lambda>n. data a ! (n * prod_list ds + m)) [0..<d])"
      using assms(2) m by (simp add: list_all_iff len idx2)
  qed
  then show ?thesis
    by (simp add: sum_axis0_def Cons wf_nd_def list_all_iff)
qed

lemma square_closed:
  assumes "wf_nd a" "\<And>x. x \<in> set (data a) \<Longrightarrow> Q (fl_mul x x)"
  shows "wf_nd (square a) \<and> list_all Q (data (square a))"
  using assms by (simp add: square_def wf_nd_def list_all_iff)

lemma mean_axis0_closed:
  assumes "wf_nd a" "list_all Q (data a)"
    and "Q (Fin 0)" "\<And>x y. Q x \<Longrightarrow> Q y \<Longrightarrow> Q (fl_add x y)"
    and "\<And>x. Q x \<Longrightarrow> Q (fl_div x (Fin (real (hd (shape a)))))"
    and "mean_axis0 a = Inr m"
  shows "wf_nd m \<and> list_all Q (data m)"
proof (cases "shape a")
  case Nil
  then show ?thesis using assms(6) by (simp add: mean_axis0_def)
next
  case (Cons d ds)
  from sum_axis0_closed[of a Q, OF assms(1,2,3,4)]
  have w: "wf_nd (sum_axis0 a)" and q: "list_all Q (data (sum_axis0 a))" by simp_all
  have s: "shape (sum_axis0 a) = ds" by (simp add: sum_axis0_def Cons)
  have m: "m = \<lparr>shape = ds, data = map (\<lambda>x. fl_div x (Fin (real d))) (data (sum_axis0 a))\<rparr>"
    using assms(6) by (simp add: mean_axis0_def Cons)
  show ?thesis
    using w q s assms(5) by (simp add: m wf_nd_def list_all_iff Cons)
qed

lemma squeeze_data: "data (squeeze a) = data a"
  by (simp add: squeeze_def)

lemma sig_dist_closed:
  assumes "wf_nd sf" "\<And>x. x \<in> set (data sf) \<Longrightarrow> Q (fl_mul x x)"
    and "Q (Fin 0)" "\<And>x y. Q x \<Longrightarrow> Q y \<Longrightarrow> Q (fl_add x y)"
    and "\<And>d x. d \<in> set (shape sf) \<Longrightarrow> Q x \<Longrightarrow> Q (fl_div x (Fin (real d)))"
    and "sig_dist sf = Inr sd"
  shows "wf_nd sd \<and> list_all Q (data sd)"
proof -
  let ?s = "sum_axis0 (square sf)"
  from square_closed[of sf Q, OF assms(1,2)]
  have "wf_nd (square sf)" "list_all Q (data (square sf))" by simp_all
  from sum_axis0_closed[of _ Q, OF this assms(3,4)]
  have w: "wf_nd ?s" and q: "list_all Q (data ?s)" by simp_all
  show ?thesis
  proof (cases "1 < ndim ?s")
    case False
    then have "sd = ?s" using assms(6) by (simp add: sig_dist_def Let_def)
    with w q show ?thesis by simp
  next
    case True
    then obtain m where m: "mean_axis0 ?s = Inr m" and sd: "sd = squeeze m"
      using assms(6) by (auto simp: sig_dist_def Let_def split: sum.splits)
    have sh: "shape ?s = tl (shape sf)"
      by (cases "shape sf") (simp_all add: sum_axis0_def square_def)
    have "hd (shape ?s) \<in> set (shape sf)"
      using True by (cases "shape sf"; cases "tl (shape sf)") (auto simp: sh ndim_def)
    then have "\<And>x. Q x \<Longrightarrow> Q (fl_div x (Fin (real (hd (shape ?s)))))"
      using assms(5) by blast
    from mean_axis0_closed[of _ Q, OF w q assms(3,4) this m]
    show ?thesis by (simp add: sd squeeze_wf squeeze_data)
  qed
qed

lemma eig_dist_closed:
  assumes "wf_nd rf" "\<And>x. x \<in> set (data rf) \<Longrightarrow> Q (fl_mul x x)"
    and "Q (Fin 0)" "\<And>x y. Q x \<Longrightarrow> Q y \<Longrightarrow> Q (fl_add x y)"
    and "\<And>d x. d \<in> set (shape rf) \<Longrightarrow> Q x \<Longrightarrow> Q (fl_div x (Fin (real d)))"
    and "eig_dist rf = Inr ed"
  shows "wf_nd ed \<and> list_all Q (data ed)"
proof -
  let ?s = "sum_axis0 (square rf)"
  from square_closed[of rf Q, OF assms(1,2)]
  have "wf_nd (square rf)" "list_all Q (data (square rf))" by simp_all
  from sum_axis0_closed[of _ Q, OF this assms(3,4)]
  have w: "wf_nd ?s" and q: "list_all Q (data ?s)" by simp_all
  obtain m where m: "mean_axis0 ?s = Inr m" and ed: "ed = squeeze m"
    using assms(6) by (auto simp: eig_dist_def split: sum.splits)
  have sh: "shape ?s = tl (shape rf)"
    by (cases "shape rf") (simp_all add: sum_axis0_def square_def)
  have ne: "shape ?s \<noteq> []" using m by (auto simp: mean_axis0_def)
  have "hd (shape ?s) \<in> set (shape rf)"
    using ne by (cases "shape rf"; cases "tl (shape rf)") (auto simp: sh)
  then have "\<And>x. Q x \<Longrightarrow> Q (fl_div x (Fin (real (hd (shape ?s)))))"
    using assms(5) by blast
  from mean_axis0_closed[of _ Q, OF w q assms(3,4) this m]
  show ?thesis by (simp add: ed squeeze_wf squeeze_data)
qed

lemma src_index_step:
  assumes "s < p" "j < d"
  shows "j + d * s < d * (p::nat)"
proof -
  have "j + d * s < d + d * s" using assms(2) by simp
  also have "\<dots> = d * Suc s" by simp
  also have "\<dots> \<le> d * p" using assms(1) by (intro mult_le_mono2) simp
  finally show ?thesis .
qed

lemma src_index_less:
  assumes "broadcast_rev xs ys = Some rs" "i < prod_list rs"
  shows "src_index xs rs i < prod_list xs \<and> src_index ys rs i < prod_list ys"
  using assms
proof (induction xs ys arbitrary: rs i rule: broadcast_rev.induct)
  case (1 ys)
  then show ?case by (simp add: src_index_same)
next
  case (2 x xs)
  then have rs: "rs = x # xs" and i: "i < prod_list (x # xs)" by simp_all
  have "src_index (x # xs) (x # xs) i = i" by (rule src_index_same[OF i])
  moreover have "src_index [] (x # xs) i = 0" by simp
  ultimately show ?case using i unfolding rs by (simp del: src_index.simps)
next
  case (3 x xs y ys)
  show ?case
  proof (cases "x = y \<or> y = 1")
    case True
    with 3(3) obtain rs' where b: "broadcast_rev xs ys = Some rs'" and rs: "rs = x # rs'"
      by auto
    have x: "0 < x" using 3(4) rs by (cases x) simp_all
    have "i div x < prod_list rs'"
      using 3(4) rs x by (simp add: less_mult_imp_div_less mult.commute)
    from 3(1)[OF True b this]
    have IH: "src_index xs rs' (i div x) < prod_list xs" "src_index ys rs' (i div x) < prod_list ys"
      by simp_all
    have mx: "(if x = 1 then 0 else i mod x) < x" using x by simp
    have my: "(if y = 1 then 0 else i mod x) < y" using x True by auto
    show ?thesis
      using src_index_step[OF IH(1) mx] src_index_step[OF IH(2) my] by (simp add: rs)
  next
    case False
    show ?thesis
    proof (cases "x = 1")
      case x1: True
      with 3(3) False obtain rs' where b: "broadcast_rev xs ys = Some rs'" and rs: "rs = y # rs'"
        by auto
      have y: "0 < y" using 3(4) rs by (cases y) simp_all
      have "i div y < prod_list rs'"
        using 3(4) rs y by (simp add: less_mult_imp_div_less mult.commute)
      from 3(2)[OF False x1 b this]
      have IH: "src_index xs rs' (i div y) < prod_list xs" "src_index ys rs' (i div y) < prod_list ys"
        by simp_all
      have my: "(if y = 1 then 0 else i mod y) < y" using y by simp
      show ?thesis
        using IH(1) src_index_step[OF IH(2) my] by (simp add: rs x1)
    next
      case x2: False
      with 3(3) False show ?thesis by simp
    qed
  qed
qed

lemma true_divide_entries:
  assumes "wf_nd a" "wf_nd b" "true_divide a b = Inr c"
    and "list_all P (data a)" "list_all R (data b)"
    and "\<And>x y. P x \<Longrightarrow> R y \<Longrightarrow> S (fl_div x y)"
  shows "list_all S (data c)"
proof -
  obtain rs where b: "broadcast_rev (rev (shape a)) (rev (shape b)) = Some rs"
    and c: "c = \<lparr>shape = rev rs,
                  data = map (\<lambda>i. fl_div (data a ! src_index (rev (shape a)) rs i)
                                         (data b ! src_index (rev (shape b)) rs i))
                           [0..<prod_list rs]\<rparr>"
    using assms(3) by (auto simp: true_divide_def split: option.splits)
  have "S (fl_div (data a ! src_index (rev (shape a)) rs i)
                  (data b ! src_index (rev (shape b)) rs i))" if "i < prod_list rs" for i
  proof (rule assms(6))
    from src_index_less[OF b that]
    have "src_index (rev (shape a)) rs i < length (data a)"
      and "src_index (rev (shape b)) rs i < length (data b)"
      using assms(1,2) by (simp_all add: wf_nd_def)
    then show "P (data a ! src_index (rev (shape a)) rs i)"
      and "R (data b ! src_index (rev (shape b)) rs i)"
      using assms(4,5) by (simp_all add: list_all_length)
  qed
  then show ?thesis by (simp add: c list_all_iff)
qed

lemma sig_dist_wf:
  assumes "wf_nd sf" "sig_dist sf = Inr sd"
  shows "wf_nd sd"
  using sig_dist_closed[of sf "\<lambda>x. True" sd, OF assms(1) _ _ _ _ assms(2)] by simp

lemma fin_sq_class: "is_fin x \<Longrightarrow> sq_class x \<Longrightarrow> fin_nonneg x"
  by (cases x) (simp_all add: is_fin_def sq_class_def fin_nonneg_def)

lemma zero_dividend: "y \<noteq> Fin 0 \<Longrightarrow> y \<noteq> NaN \<Longrightarrow> fl_div (Fin 0) y = Fin 0"
  by (cases y) (simp_all add: fl_div_def)

lemma fl_div_nan: "fl_div x NaN = NaN"
  by (cases x) (simp_all add: fl_div_def)

lemma empty_batch_reference: "shape rf = [n, 0, p] \<Longrightarrow> reference_energy rf i = NaN"
  by (simp add: reference_energy_def column_mean_def fl_sum_def fl_div_def fl_inf_def)

section \<open>Parts of a run\<close>

lemma run_parts:
  assumes "returned (estimate_graph_psd pg graph signal n_rand n_point st) = Inr (spectrum, psd)"
    and "run_arrays pg graph signal n_rand n_point st sf rf sd ed"
  shows "linspace 0 (lmax graph) n_point = Inr spectrum \<and> true_divide sd ed = Inr psd"
proof -
  from assms(2) obtain g probe st' where g: "Itersine pg graph n_point 2 = Inr g"
    and fs: "filter_cheby pg g signal (2 * n_point) = Inr sf"
    and rs: "rand_sig (N graph) n_rand st = Inr (probe, st')"
    and fr: "filter_cheby pg g probe (2 * n_point) = Inr rf"
    and sd: "sig_dist sf = Inr sd" and ed: "eig_dist rf = Inr ed"
    by (auto simp: run_arrays_def filters_to_def split: sum.splits)
  from assms(1) show ?thesis
    by (auto simp: estimate_graph_psd_def returned_def g fs rs fr sd ed split: sum.splits)
qed

lemma returned_spectrum:
  assumes "returned (estimate_graph_psd pg graph signal n_rand n_point st) = Inr (spectrum, psd)"
  shows "linspace 0 (lmax graph) n_point = Inr spectrum"
  using assms
  by (auto simp: estimate_graph_psd_def returned_def split: sum.splits prod.splits)

section \<open>Scaling\<close>

lemma scale_shape: "shape (scale k a) = shape a"
  by (simp add: scale_def)

lemma scale_wf: "wf_nd a \<Longrightarrow> wf_nd (scale k a)"
  by (simp add: scale_def wf_nd_def)

lemma square_scale: "square (scale c a) = scale (c * c) (square a)"
  by (simp add: square_def scale_def fl_square_scale)

lemma sum_axis0_scale:
  assumes "wf_nd a"
  shows "sum_axis0 (scale k a) = scale k (sum_axis0 a)"
proof (cases "shape a")
  case Nil
  then show ?thesis by (simp add: sum_axis0_def scale_def)
next
  case (Cons d ds)
  have len: "length (data a) = d * prod_list ds"
    using assms Cons by (simp add: wf_nd_def)
  have "fl_sum (map (\<lambda>n. map (fl_mul (Fin k)) (data a) ! (n * prod_list ds + m)) [0..<d])
        = fl_mul (Fin k) (fl_sum (map (\<lambda>n. data a ! (n * prod_list ds + m)) [0..<d]))"
    if m: "m < prod_list ds" for m
  proof -
    have "map (\<lambda>n. map (fl_mul (Fin k)) (data a) ! (n * prod_list ds + m)) [0..<d]
          = map (fl_mul (Fin k)) (map (\<lambda>n. data a ! (n * prod_list ds + m)) [0..<d])"
      unfolding map_map comp_def
      by (rule map_cong[OF refl]) (simp add: len idx2 m)
    then show ?thesis by (simp only: fl_sum_scale)
  qed
  then have "map (\<lambda>m. fl_sum (map (\<lambda>n. map (fl_mul (Fin k)) (data a) ! (n * prod_list ds + m)) [0..<d]))
               [0..<prod_list ds]
             = map (fl_mul (Fin k))
                 (map (\<lambda>m. fl_sum (map (\<lambda>n. data a ! (n * prod_list ds + m)) [0..<d]))
                    [0..<prod_list ds])"
    unfolding map_map comp_def by (intro map_cong[OF refl]) simp
  then show ?thesis
    by (simp add: sum_axis0_def scale_def Cons)
qed

lemma mean_axis0_scale:
  assumes "wf_nd a" "mean_axis0 a = Inr m"
  shows "mean_axis0 (scale k a) = Inr (scale k m)"
proof (cases "shape a")
  case Nil
  then show ?thesis using assms(2) by (simp add: mean_axis0_def)
next
  case (Cons d ds)
  have m: "m = \<lparr>shape = ds, data = map (\<lambda>x. fl_div x (Fin (real d))) (data (sum_axis0 a))\<rparr>"
    using assms(2) by (simp add: mean_axis0_def Cons)
  have d: "data (sum_axis0 (scale k a)) = map (fl_mul (Fin k)) (data (sum_axis0 a))"
    unfolding sum_axis0_scale[OF assms(1)] by (simp add: scale_def)
  have sh: "shape (scale k a) = d # ds" by (simp add: scale_shape Cons)
  have "mean_axis0 (scale k a)
        = Inr \<lparr>shape = ds,
               data = map (\<lambda>x. fl_div x (Fin (real d))) (data (sum_axis0 (scale k a)))\<rparr>"
    by (simp add: mean_axis0_def sh)
  also have "\<dots> = Inr (scale k m)"
    unfolding d m by (simp add: scale_def fl_div_scale)
  finally show ?thesis .
qed

lemma squeeze_scale: "squeeze (scale k a) = scale k (squeeze a)"
  by (simp add: squeeze_def scale_def)

lemma sig_dist_scale:
  assumes "wf_nd sf" "sig_dist sf = Inr sd"
  shows "sig_dist (scale c sf) = Inr (scale (c * c) sd)"
proof -
  let ?s = "sum_axis0 (square sf)"
  have w: "wf_nd (square sf)" using assms(1) by (simp add: square_def wf_nd_def)
  have s: "sum_axis0 (square (scale c sf)) = scale (c * c) ?s"
    by (simp add: square_scale sum_axis0_scale[OF w])
  have ws: "wf_nd ?s"
    using sum_axis0_closed[of "square sf" "\<lambda>x. True", OF w] by (simp add: list_all_iff)
  show ?thesis
  proof (cases "1 < ndim ?s")
    case False
    then have "sd = ?s" using assms(2) by (simp add: sig_dist_def Let_def)
    with False show ?thesis by (simp add: sig_dist_def Let_def s ndim_def scale_shape)
  next
    case True
    then obtain m where m: "mean_axis0 ?s = Inr m" and sd: "sd = squeeze m"
      using assms(2) by (auto simp: sig_dist_def Let_def split: sum.splits)
    from True show ?thesis
      by (simp add: sig_dist_def Let_def s ndim_def scale_shape
          mean_axis0_scale[OF ws m] squeeze_scale sd)
  qed
qed

lemma true_divide_scale:
  assumes "wf_nd a" "true_divide a b = Inr q"
  shows "true_divide (scale k a) b = Inr (scale k q)"
proof -
  obtain rs where b: "broadcast_rev (rev (shape a)) (rev (shape b)) = Some rs"
    and q: "q = \<lparr>shape = rev rs,
                  data = map (\<lambda>i. fl_div (data a ! src_index (rev (shape a)) rs i)
                                         (data b ! src_index (rev (shape b)) rs i))
                           [0..<prod_list rs]\<rparr>"
    using assms(2) by (auto simp: true_divide_def split: option.splits)
  have "map (\<lambda>i. fl_div (map (fl_mul (Fin k)) (data a) ! src_index (rev (shape a)) rs i)
                        (data b ! src_index (rev (shape b)) rs i)) [0..<prod_list rs]
        = map (fl_mul (Fin k))
            (map (\<lambda>i. fl_div (data a ! src_index (rev (shape a)) rs i)
                              (data b ! src_index (rev (shape b)) rs i)) [0..<prod_list rs])"
    unfolding map_map comp_def
  proof (rule map_cong[OF refl])
    fix i assume "i \<in> set [0..<prod_list rs]"
    then have "i < prod_list rs" by simp
    from src_index_less[OF b this]
    have "src_index (rev (shape a)) rs i < length (data a)"
      using assms(1) by (simp add: wf_nd_def)
    then show "fl_div (map (fl_mul (Fin k)) (data a) ! src_index (rev (shape a)) rs i)
                      (data b ! src_index (rev (shape b)) rs i)
               = fl_mul (Fin k) (fl_div (data a ! src_index (rev (shape a)) rs i)
                                        (data b ! src_index (rev (shape b)) rs i))"
      by (simp add: fl_div_scale)
  qed
  then show ?thesis
    by (simp add: true_divide_def scale_shape b q scale_def)
qed

section \<open>The claims\<close>

text \<open>
  C1, amended.  The claim is that the call fails with an InvalidArgument error
  whenever \<open>n_point < 1\<close>, \<open>n_rand < 1\<close>, the signal's node dimension differs from
  \<open>graph.N\<close> or \<open>graph.lmax <= 0\<close>.  The function checks none of its arguments and
  has no error of its own, and \<open>n_rand = 0\<close> is not rejected.  What holds:
  \<^item> a call with \<open>n_point < 0\<close> or \<open>n_rand < 0\<close> always fails (\<open>np.linspace\<close> and
    \<open>np.random.binomial\<close> raise ValueError, unless an earlier call has raised);
  \<^item> an exception the library raises when the bank is built, when the signal is
    filtered or when the probes are filtered is passed on unchanged; this is how
    \<open>n_point = 0\<close>, a signal of the wrong node dimension and \<open>lmax = 0\<close> fail with
    pygsp, by its IndexError, ValueError and ZeroDivisionError;
  \<^item> a call with \<open>n_rand = 0\<close> and \<open>n_point >= 2\<close> returns when the library answers
    the signal with an \<open>N x n_point\<close> or \<open>N x k x n_point\<close> array and the empty probe
    batch with an \<open>N x 0 x n_point\<close> array, as pygsp's conventions give: the spectrum
    is the usual one and the psd holds \<open>n_point\<close> entries \<open>nan\<close>, the mean over zero
    probes.
\<close>

theorem no_argument_checks:
  "(n_point < 0 \<or> n_rand < 0 \<longrightarrow>
      (\<exists>e. estimate_graph_psd pg graph signal n_rand n_point st = Inl e)) \<and>
   (Itersine pg graph n_point 2 = Inl e \<longrightarrow>
      estimate_graph_psd pg graph signal n_rand n_point st = Inl e) \<and>
   (0 \<le> n_point \<and> Itersine pg graph n_point 2 = Inr g \<and>
    filter_cheby pg g signal (2 * n_point) = Inl e \<longrightarrow>
      estimate_graph_psd pg graph signal n_rand n_point st = Inl e) \<and>
   (0 \<le> n_point \<and> Itersine pg graph n_point 2 = Inr g \<and>
    filter_cheby pg g signal (2 * n_point) = Inr sf \<and>
    rand_sig (N graph) n_rand st = Inr (probe, st') \<and>
    filter_cheby pg g probe (2 * n_point) = Inl e \<longrightarrow>
      estimate_graph_psd pg graph signal n_rand n_point st = Inl e) \<and>
   (n_rand = 0 \<and> 2 \<le> n_point \<and> filters_to pg graph signal n_rand n_point st sf rf \<and>
    wf_nd sf \<and> wf_nd rf \<and>
    (shape sf = [n, nat n_point] \<or> shape sf = [n, k, nat n_point]) \<and>
    shape rf = [n', 0, nat n_point] \<longrightarrow>
      (\<exists>spectrum. linspace 0 (lmax graph) n_point = Inr spectrum \<and>
         returned (estimate_graph_psd pg graph signal n_rand n_point st) =
           Inr (spectrum, \<lparr>shape = [nat n_point], data = replicate (nat n_point) NaN\<rparr>)))"
proof (intro conjI impI)
  assume a: "n_point < 0 \<or> n_rand < 0"
  show "\<exists>e. estimate_graph_psd pg graph signal n_rand n_point st = Inl e"
  proof (cases "n_point < 0")
    case True
    then show ?thesis
      by (auto simp: estimate_graph_psd_def linspace_negative split: sum.splits)
  next
    case False
    with a have nr: "n_rand < 0" by simp
    show ?thesis
      by (auto simp: estimate_graph_psd_def rand_sig_negative[OF nr] split: sum.splits)
  qed
next
  assume "Itersine pg graph n_point 2 = Inl e"
  then show "estimate_graph_psd pg graph signal n_rand n_point st = Inl e"
    by (simp add: estimate_graph_psd_def)
next
  assume a: "0 \<le> n_point \<and> Itersine pg graph n_point 2 = Inr g \<and>
    filter_cheby pg g signal (2 * n_point) = Inl e"
  then obtain sp where "linspace 0 (lmax graph) n_point = Inr sp"
    using linspace_returns by blast
  with a show "estimate_graph_psd pg graph signal n_rand n_point st = Inl e"
    by (simp add: estimate_graph_psd_def)
next
  assume a: "0 \<le> n_point \<and> Itersine pg graph n_point 2 = Inr g \<and>
    filter_cheby pg g signal (2 * n_point) = Inr sf \<and>
    rand_sig (N graph) n_rand st = Inr (probe, st') \<and>
    filter_cheby pg g probe (2 * n_point) = Inl e"
  then obtain sp where "linspace 0 (lmax graph) n_point = Inr sp"
    using linspace_returns by blast
  moreover obtain sd where "sig_dist sf = Inr sd" using sig_dist_total by blast
  ultimately show "estimate_graph_psd pg graph signal n_rand n_point st = Inl e"
    using a by (simp add: estimate_graph_psd_def)
next
  assume a: "n_rand = 0 \<and> 2 \<le> n_point \<and> filters_to pg graph signal n_rand n_point st sf rf \<and>
    wf_nd sf \<and> wf_nd rf \<and>
    (shape sf = [n, nat n_point] \<or> shape sf = [n, k, nat n_point]) \<and>
    shape rf = [n', 0, nat n_point]"
  then have np: "0 \<le> n_point" and two: "nat n_point \<noteq> 1" by auto
  obtain sp where sp: "linspace 0 (lmax graph) n_point = Inr sp"
    using linspace_returns[OF np] by blast
  from a have h: "filters_to pg graph signal n_rand n_point st sf rf"
    "wf_nd sf" "shape sf = [n, nat n_point] \<or> shape sf = [n, k, nat n_point]"
    "wf_nd rf" "shape rf = [n', 0, nat n_point]"
    by blast+
  have "map (\<lambda>i. fl_div (signal_energy sf i) (reference_energy rf i)) [0..<nat n_point]
        = replicate (nat n_point) NaN"
    by (simp add: empty_batch_reference[OF h(5)] fl_div_nan map_replicate_const)
  with run[OF np h sp] two
  have "returned (estimate_graph_psd pg graph signal n_rand n_point st) =
          Inr (sp, \<lparr>shape = [nat n_point], data = replicate (nat n_point) NaN\<rparr>)"
    by simp
  with sp show "\<exists>spectrum. linspace 0 (lmax graph) n_point = Inr spectrum \<and>
         returned (estimate_graph_psd pg graph signal n_rand n_point st) =
           Inr (spectrum, \<lparr>shape = [nat n_point], data = replicate (nat n_point) NaN\<rparr>)"
    by blast
qed

theorem no_argument_checks_witness:
  "((- 1 :: int) < 0 \<or> (3 :: int) < 0) \<and>
   (\<exists>e. estimate_graph_psd vector_only two_node (arr [2] [1, 0]) 3 (- 1) even = Inl e) \<and>
   ((2 :: int) < 0 \<or> (- 1 :: int) < 0) \<and>
   (\<exists>e. estimate_graph_psd gain_bank two_node (arr [2] [1, 0]) (- 1) 2 even = Inl e) \<and>
   Itersine gain_bank two_node 0 2 = Inl IndexError \<and>
   estimate_graph_psd gain_bank two_node (arr [2] [1, 0]) 3 0 even = Inl IndexError \<and>
   Itersine gain_bank \<lparr>N = 2, lmax = 0\<rparr> 2 2 = Inl ZeroDivisionError \<and>
   estimate_graph_psd gain_bank \<lparr>N = 2, lmax = 0\<rparr> (arr [2] [1, 0]) 3 2 even
     = Inl ZeroDivisionError \<and>
   (0 :: int) \<le> 2 \<and> Itersine gain_bank two_node 2 2 = Inr (2, 2) \<and>
   filter_cheby gain_bank (2, 2) (arr [3] [1, 2, 3]) (2 * 2) = Inl ValueError \<and>
   estimate_graph_psd gain_bank two_node (arr [3] [1, 2, 3]) 3 2 even = Inl ValueError \<and>
   Itersine vector_only two_node 2 2 = Inr () \<and>
   filter_cheby vector_only () (arr [2] [1, 0]) (2 * 2) = Inr (arr [2] [1, 0]) \<and>
   rand_sig (N two_node) 3 even
     = Inr (arr [2, 3] [1, - 1, 1, - 1, 1, - 1], \<lambda>m. even (m + 6)) \<and>
   filter_cheby vector_only () (arr [2, 3] [1, - 1, 1, - 1, 1, - 1]) (2 * 2) = Inl ValueError \<and>
   estimate_graph_psd vector_only two_node (arr [2] [1, 0]) 3 2 even = Inl ValueError \<and>
   (2 :: int) \<le> 2 \<and>
   filters_to gain_bank two_node (arr [2] [1, 0]) 0 2 even (arr [2, 2] [1, 2, 0, 0])
     (arr [2, 0, 2] []) \<and>
   wf_nd (arr [2, 2] [1, 2, 0, 0]) \<and> wf_nd (arr [2, 0, 2] []) \<and>
   shape (arr [2, 2] [1, 2, 0, 0]) = [2, nat 2] \<and> shape (arr [2, 0, 2] []) = [2, 0, nat 2] \<and>
   (\<exists>spectrum. linspace 0 (lmax two_node) 2 = Inr spectrum \<and>
      returned (estimate_graph_psd gain_bank two_node (arr [2] [1, 0]) 0 2 even) =
        Inr (spectrum, \<lparr>shape = [2], data = [NaN, NaN]\<rparr>))"
proof -
  let ?s = "arr [2] [1, 0]"
  let ?t = "arr [3] [1, 2, 3]"
  let ?g0 = "\<lparr>N = 2, lmax = 0\<rparr>"
  let ?probe = "arr [2, 3] [1, - 1, 1, - 1, 1, - 1]"
  let ?sf = "arr [2, 2] [1, 2, 0, 0]"
  let ?rf = "arr [2, 0, 2] []"
  have a1: "(- 1 :: int) < 0 \<or> (3 :: int) < 0" by simp
  have a2: "(2 :: int) < 0 \<or> (- 1 :: int) < 0" by simp
  have b1: "Itersine gain_bank two_node 0 2 = Inl IndexError" by code_simp
  have b2: "Itersine gain_bank ?g0 2 2 = Inl ZeroDivisionError" by code_simp
  have c1: "(0 :: int) \<le> 2" by simp
  have c2: "Itersine gain_bank two_node 2 2 = Inr (2, 2)" by code_simp
  have c3: "filter_cheby gain_bank (2, 2) ?t (2 * 2) = Inl ValueError" by code_simp
  have d1: "Itersine vector_only two_node 2 2 = Inr ()" by code_simp
  have d2: "filter_cheby vector_only () ?s (2 * 2) = Inr ?s" by code_simp
  have d3: "rand_sig (N two_node) 3 even = Inr (?probe, \<lambda>m. even (m + 6))"
    by (simp add: rand_sig_def binomial_def times2_minus1_def arr_def two_node_def
        fl_add_def fl_mul_def upt_rec)
  have d4: "filter_cheby vector_only () ?probe (2 * 2) = Inl ValueError" by code_simp
  have e1: "(2 :: int) \<le> 2" by simp
  have e2: "filters_to gain_bank two_node ?s 0 2 even ?sf ?rf" by code_simp
  have e3: "wf_nd ?sf" "wf_nd ?rf" by code_simp+
  have e4: "shape ?sf = [2, nat 2]" "shape ?rf = [2, 0, nat 2]" by code_simp+
  have r1: "\<exists>e. estimate_graph_psd vector_only two_node ?s 3 (- 1) even = Inl e"
    using no_argument_checks[where pg = vector_only and graph = two_node and n_point = "- 1"
        and signal = ?s and n_rand = 3 and st = even] a1
    by blast
  have r2: "\<exists>e. estimate_graph_psd gain_bank two_node ?s (- 1) 2 even = Inl e"
    using no_argument_checks[where pg = gain_bank and graph = two_node and n_point = 2
        and signal = ?s and n_rand = "- 1" and st = even] a2
    by blast
  have r3: "estimate_graph_psd gain_bank two_node ?s 3 0 even = Inl IndexError"
    using no_argument_checks[where pg = gain_bank and graph = two_node and n_point = 0
        and e = IndexError and signal = ?s and n_rand = 3 and st = even] b1
    by blast
  have r4: "estimate_graph_psd gain_bank ?g0 ?s 3 2 even = Inl ZeroDivisionError"
    using no_argument_checks[where pg = gain_bank and graph = ?g0 and n_point = 2
        and e = ZeroDivisionError and signal = ?s and n_rand = 3 and st = even] b2
    by blast
  have r5: "estimate_graph_psd gain_bank two_node ?t 3 2 even = Inl ValueError"
    using no_argument_checks[where pg = gain_bank and graph = two_node and n_point = 2
        and g = "(2, 2)" and e = ValueError and signal = ?t and n_rand = 3 and st = even]
      c1 c2 c3
    by blast
  have r6: "estimate_graph_psd vector_only two_node ?s 3 2 even = Inl ValueError"
    using no_argument_checks[where pg = vector_only and graph = two_node and n_point = 2
        and g = "()" and e = ValueError and signal = ?s and n_rand = 3 and st = even
        and sf = ?s and probe = ?probe and st' = "\<lambda>m. even (m + 6)"]
      c1 d1 d2 d3 d4
    by blast
  have n2: "nat 2 = 2" by simp
  have rep: "replicate 2 NaN = [NaN, NaN]" by (simp add: numeral_2_eq_2)
  have r7: "\<exists>spectrum. linspace 0 (lmax two_node) 2 = Inr spectrum \<and>
      returned (estimate_graph_psd gain_bank two_node ?s 0 2 even) =
        Inr (spectrum, \<lparr>shape = [2], data = [NaN, NaN]\<rparr>)"
    using no_argument_checks[where pg = gain_bank and graph = two_node and n_point = 2
        and sf = ?sf and rf = ?rf and signal = ?s and n_rand = 0 and st = even
        and n = 2 and n' = 2] e1 e2 e3 e4
    unfolding n2 rep by blast
  from a1 r1 a2 r2 b1 r3 b2 r4 c1 c2 c3 r5 d1 d2 d3 d4 r6 e1 e2 e3 e4 r7 show ?thesis
    by (intro conjI)
qed

text \<open>
  The failing case of C1: a vector on the two-node graph, two bands, \<open>n_rand = 0\<close>.
  The call returns; both psd entries are \<open>nan\<close>.
\<close>

theorem no_argument_checks_counterexample:
  "returned (estimate_graph_psd gain_bank two_node (arr [2] [1, 0]) 0 2 even)
     = Inr (arr [2] [0, 2], \<lparr>shape = [2], data = [NaN, NaN]\<rparr>)"
  by code_simp

text \<open>
  C2.  The claim is that for every valid input entry \<open>i\<close> of the psd is the signal
  energy of band \<open>i\<close> divided by the reference energy of band \<open>i\<close>, the mean over
  the \<open>n_rand\<close> probes of the per-probe energies of that band.  The code takes
  \<open>np.mean(..., axis=0)\<close> of the summed squares of the filtered probes whatever their
  shape, whereas on the signal path the same mean is guarded by
  \<open>if sig_dist.ndim > 1\<close>.  A library with pygsp's conventions returns the filtered
  probes of \<open>n_rand = 1\<close> with the axes nodes and bands only, so that the mean runs
  over the bands; and it reads the probes of \<open>n_rand = n_point\<close> as one signal of
  \<open>n_point\<close> features, so that the sum is 0-d and \<open>np.mean\<close> raises.  Both inputs are
  valid.  On the two-node graph with the signal \<open>(1, 0)\<close>, two bands and one probe,
  the band energies of the filtered signal are 1 and 4 and those of the filtered probe
  2 and 8: the quotients the claim states are \<open>1/2\<close> and \<open>1/2\<close>, and the code returns
  \<open>1/5\<close> and \<open>4/5\<close>, both energies divided by 5, the mean of 2 and 8.  With two
  probes and two bands the call raises.
\<close>

theorem single_probe_run:
  "valid_input two_node (arr [2] [1, 0]) 1 2 \<and>
   filters_to gain_bank two_node (arr [2] [1, 0]) 1 2 even
     (arr [2, 2] [1, 2, 0, 0]) (arr [2, 2] [1, 2, - 1, - 2]) \<and>
   map (\<lambda>i. fl_div (signal_energy (arr [2, 2] [1, 2, 0, 0]) i)
                    (energy2 (arr [2, 2] [1, 2, - 1, - 2]) i)) [0..<2]
     = [Fin (1 / 2), Fin (1 / 2)] \<and>
   returned (estimate_graph_psd gain_bank two_node (arr [2] [1, 0]) 1 2 even)
     = Inr (arr [2] [0, 2], arr [2] [1 / 5, 4 / 5]) \<and>
   valid_input two_node (arr [2] [1, 0]) 2 2 \<and>
   returned (estimate_graph_psd gain_bank two_node (arr [2] [1, 0]) 2 2 even) = Inl IndexError"
  by code_simp

text \<open>
  C3, amended.  The claim gives the spectrum as \<open>spectrum[i] = i * lmax / (n_point - 1)\<close>
  for \<open>n_point >= 2\<close> and as \<open>[0]\<close> for \<open>n_point = 1\<close>, and concludes that the first
  entry is 0, the last entry is \<open>lmax\<close> and the entries are non-decreasing.  The last
  entry is not \<open>lmax\<close> when \<open>n_point = 1\<close>: it is the single entry 0.  What holds,
  whatever the library, for every call that returns with \<open>n_point >= 1\<close> and
  \<open>lmax >= 0\<close>: the spectrum has \<open>n_point\<close> finite entries \<open>xs\<close>; with
  \<open>n_point >= 2\<close>, entry \<open>i\<close> is \<open>i * lmax / (n_point - 1)\<close>; with \<open>n_point = 1\<close>,
  \<open>xs = [0]\<close>; the first entry is 0; the last entry is \<open>lmax\<close> when \<open>n_point >= 2\<close>
  and 0 when \<open>n_point = 1\<close>; and the entries are non-decreasing.
\<close>

theorem spectrum_linear:
  assumes "returned (estimate_graph_psd pg graph signal n_rand n_point st) = Inr (spectrum, psd)"
    and "1 \<le> n_point" "0 \<le> lmax graph"
  shows "\<exists>xs. spectrum = arr [nat n_point] xs \<and>
           length xs = nat n_point \<and>
           (2 \<le> n_point \<longrightarrow>
              (\<forall>i < nat n_point. xs ! i = real i * lmax graph / real_of_int (n_point - 1))) \<and>
           (n_point = 1 \<longrightarrow> xs = [0]) \<and>
           xs ! 0 = 0 \<and>
           xs ! (nat n_point - 1) = (if n_point = 1 then 0 else lmax graph) \<and>
           sorted xs"
proof -
  have sp: "linspace 0 (lmax graph) n_point = Inr spectrum"
    by (rule returned_spectrum[OF assms(1)])
  show ?thesis
  proof (cases "n_point = 1")
    case True
    have "spectrum = arr [nat n_point] [0]" using sp unfolding True by (simp add: linspace_one)
    then show ?thesis
      by (intro exI[of _ "[0]"]) (simp add: True)
  next
    case False
    then have two: "2 \<le> n_point" using assms(2) by simp
    from linspace_many[OF two] obtain xs where
      l: "linspace 0 (lmax graph) n_point = Inr (arr [nat n_point] xs)"
      and len: "length xs = nat n_point"
      and v: "\<forall>i < nat n_point. xs ! i = real i * lmax graph / real_of_int (n_point - 1)"
      by blast
    have s: "sorted xs" by (rule linspace_sorted[OF two assms(3) len v])
    have first: "xs ! 0 = 0" using v two by simp
    have idx: "nat n_point - 1 < nat n_point" using two by simp
    have cast: "real (nat n_point - 1) = real_of_int (n_point - 1)"
      using two by (simp add: of_nat_diff)
    have "xs ! (nat n_point - 1) = real (nat n_point - 1) * lmax graph / real_of_int (n_point - 1)"
      using v idx by blast
    also have "\<dots> = lmax graph" unfolding cast using two by simp
    finally have last: "xs ! (nat n_point - 1) = lmax graph" .
    from l sp have "spectrum = arr [nat n_point] xs" by simp
    then show ?thesis
      using len v s first last False by (intro exI[of _ xs]) simp
  qed
qed

theorem spectrum_linear_witness:
  "returned (estimate_graph_psd gain_bank two_node (arr [2] [1, 0]) 2 3 even)
     = Inr (arr [3] [0, 1, 2], arr [3] [1 / 2, 1 / 2, 1 / 2]) \<and>
   (1 :: int) \<le> 3 \<and> 0 \<le> lmax two_node \<and>
   (\<exists>xs. arr [3] [0, 1, 2] = arr [3] xs \<and> xs ! 0 = 0 \<and> xs ! 1 = 1 \<and> xs ! 2 = 2 \<and> sorted xs)"
proof -
  have h1: "returned (estimate_graph_psd gain_bank two_node (arr [2] [1, 0]) 2 3 even)
              = Inr (arr [3] [0, 1, 2], arr [3] [1 / 2, 1 / 2, 1 / 2])"
    by code_simp
  have h2: "(1 :: int) \<le> 3" by simp
  have h3: "0 \<le> lmax two_node" by (simp add: two_node_def)
  have l: "lmax two_node = 2" by (simp add: two_node_def)
  from spectrum_linear[OF h1 h2 h3] obtain xs where
    x: "arr [3] [0, 1, 2] = arr [nat 3] xs"
    "\<forall>i < nat 3. xs ! i = real i * lmax two_node / real_of_int (3 - 1)"
    "xs ! 0 = 0" "xs ! (nat 3 - 1) = (if (3 :: int) = 1 then 0 else lmax two_node)" "sorted xs"
    by auto
  have "xs ! 1 = 1" using x(2) l by simp
  moreover have "xs ! 2 = 2" using x(4) l by simp
  ultimately have "\<exists>xs. arr [3] [0, 1, 2] = arr [3] xs \<and> xs ! 0 = 0 \<and> xs ! 1 = 1 \<and> xs ! 2 = 2 \<and> sorted xs"
    using x(1,3,5) by (intro exI[of _ xs]) simp
  with h1 h2 h3 show ?thesis by (intro conjI)
qed

text \<open>
  The failing case of C3: a valid call with one band on the two-node graph, whose
  \<open>lmax\<close> is 2.  The spectrum is \<open>[0]\<close>; its last entry is 0.
\<close>

theorem spectrum_linear_counterexample:
  "valid_input two_node (arr [2] [1, 0]) 2 1 \<and>
   returned (estimate_graph_psd gain_bank two_node (arr [2] [1, 0]) 2 1 even)
     = Inr (arr [1] [0], arr [] [1 / 2]) \<and>
   data (arr [1] [0]) ! (nat 1 - 1) = Fin 0 \<and>
   Fin 0 \<noteq> Fin (lmax two_node)"
  by code_simp

text \<open>
  C5.  The claim is that for every valid input both returned sequences have length
  \<open>n_point\<close>.  The docstring promises the psd at the evaluation points, and the
  spectrum has one entry per point.  With \<open>n_point = 1\<close> the psd has none to count: a
  library with pygsp's conventions returns its results squeezed, without the band
  axis, the sums along axis 0 and the mean leave 0-d values, and the psd is their
  0-d quotient, for which \<open>len\<close> raises TypeError.  On the two-node graph with the
  signal \<open>(1, 0)\<close>, three probes and one band, the spectrum is \<open>[0]\<close>, of length 1,
  and the psd is the 0-d value \<open>1/2\<close>.
\<close>

theorem single_band_run:
  "valid_input two_node (arr [2] [1, 0]) 3 1 \<and>
   returned (estimate_graph_psd gain_bank two_node (arr [2] [1, 0]) 3 1 even)
     = Inr (arr [1] [0], arr [] [1 / 2]) \<and>
   len_nd (arr [1] [0]) = Inr 1 \<and>
   len_nd (arr [] [1 / 2]) = Inl TypeError"
  by code_simp

text \<open>
  C6, amended.  The claim includes that the randomness is injected through an
  explicit generator parameter rather than taken from ambient global state.  It is
  not: the Python function has the parameters \<open>graph\<close>, \<open>signal\<close>, \<open>n_rand\<close> and \<open>n_point\<close> only; it draws from
  \<open>np.random\<close>, the generator of the whole process, whose state is the last argument
  of the model.  What holds is the determinism half of the claim, relative to that
  state: two calls with identical \<open>graph\<close>, \<open>signal\<close>, \<open>n_rand\<close> and \<open>n_point\<close>,
  started from generator states that yield the same next \<open>N * n_rand\<close> outcomes (as
  after the same \<open>np.random.seed\<close>), return the same spectrum and psd, or raise the
  same exception.
\<close>

theorem seeded_runs_agree:
  assumes "agree_upto (N graph * nat n_rand) st st'"
  shows "returned (estimate_graph_psd pg graph signal n_rand n_point st)
         = returned (estimate_graph_psd pg graph signal n_rand n_point st')"
proof -
  have a: "returned (rand_sig (N graph) n_rand st) = returned (rand_sig (N graph) n_rand st')"
    by (rule rand_sig_agree[OF assms])
  show ?thesis
  proof (cases "rand_sig (N graph) n_rand st")
    case (Inl e)
    then have "rand_sig (N graph) n_rand st' = Inl e"
      using a by (auto simp: returned_def split: sum.splits)
    with Inl show ?thesis
      by (simp add: estimate_graph_psd_def returned_def split: sum.splits)
  next
    case (Inr b)
    obtain probe s1 where b: "b = (probe, s1)" by (cases b)
    with Inr a obtain s2 where "rand_sig (N graph) n_rand st' = Inr (probe, s2)"
      by (auto simp: returned_def split: sum.splits)
    with Inr b show ?thesis
      by (simp add: estimate_graph_psd_def returned_def split: sum.splits)
  qed
qed

theorem seeded_runs_agree_witness:
  "agree_upto (N two_node * nat 2) (\<lambda>m. m \<noteq> 3) (\<lambda>m. m \<noteq> 3 \<and> m \<noteq> 4) \<and>
   returned (estimate_graph_psd ideal_bank two_node (arr [2] [1, 0]) 2 2 (\<lambda>m. m \<noteq> 3))
     = returned (estimate_graph_psd ideal_bank two_node (arr [2] [1, 0]) 2 2
                   (\<lambda>m. m \<noteq> 3 \<and> m \<noteq> 4))"
proof -
  have h: "agree_upto (N two_node * nat 2) (\<lambda>m. m \<noteq> 3) (\<lambda>m. m \<noteq> 3 \<and> m \<noteq> 4)"
    by code_simp
  from seeded_runs_agree[OF h] h show ?thesis by (intro conjI)
qed

text \<open>
  The failing case of C6: the four arguments of the function do not determine its
  result.  The same call returns different psds under two states of the process-wide
  generator.
\<close>

theorem ambient_generator_counterexample:
  "returned (estimate_graph_psd ideal_bank two_node (arr [2] [1, 0]) 2 2 (\<lambda>m. True))
     = Inr (arr [2] [0, 2], \<lparr>shape = [2], data = [Fin (1 / 4), PInf]\<rparr>) \<and>
   returned (estimate_graph_psd ideal_bank two_node (arr [2] [1, 0]) 2 2 (\<lambda>m. m \<noteq> 3))
     = Inr (arr [2] [0, 2], \<lparr>shape = [2], data = [Fin (1 / 2), Fin (1 / 2)]\<rparr>)"
  by code_simp

text \<open>
  C7.  Every entry of a returned psd is non-negative when no band is degenerate (no
  reference energy is zero) and the two energy arrays the code divides hold finite
  numbers.  Each entry is then the quotient of a sum of squares, or of a mean of such
  sums, by a positive one.  Nothing is assumed about the shapes of the arrays the
  library returns, so the entries are all those of the psd, whether it has
  \<open>n_point\<close> of them or not.
\<close>

theorem psd_nonnegative:
  assumes "returned (estimate_graph_psd pg graph signal n_rand n_point st) = Inr (spectrum, psd)"
    and "run_arrays pg graph signal n_rand n_point st sf rf sd ed"
    and "finite_nd sd" "finite_nd ed" "nondegenerate ed"
  shows "list_all fl_nonneg (data psd)"
proof -
  from assms(2) have wsf: "wf_nd sf" and wrf: "wf_nd rf"
    and sd: "sig_dist sf = Inr sd" and ed: "eig_dist rf = Inr ed"
    by (simp_all add: run_arrays_def)
  have dv: "true_divide sd ed = Inr psd" using run_parts[OF assms(1,2)] by simp
  have s: "wf_nd sd \<and> list_all sq_class (data sd)"
    by (rule sig_dist_closed[of sf sq_class, OF wsf _ _ _ _ sd])
       (simp_all add: sq_class_square sq_class_add sq_class_div_count sq_class_zero)
  have e: "wf_nd ed \<and> list_all sq_class (data ed)"
    by (rule eig_dist_closed[of rf sq_class, OF wrf _ _ _ _ ed])
       (simp_all add: sq_class_square sq_class_add sq_class_div_count sq_class_zero)
  have p: "list_all fin_nonneg (data sd)"
    using s assms(3) by (auto simp: list_all_iff finite_nd_def fin_sq_class)
  have r: "list_all (\<lambda>y. fin_nonneg y \<and> y \<noteq> Fin 0) (data ed)"
    using e assms(4,5) by (auto simp: list_all_iff finite_nd_def nondegenerate_def fin_sq_class)
  show ?thesis
    by (rule true_divide_entries[of sd ed psd fin_nonneg "\<lambda>y. fin_nonneg y \<and> y \<noteq> Fin 0" fl_nonneg])
       (use s e dv p r in \<open>simp_all add: nonneg_quotient\<close>)
qed

theorem psd_nonnegative_witness:
  "returned (estimate_graph_psd gain_bank two_node (arr [2] [1, 0]) 3 2 even)
     = Inr (arr [2] [0, 2], arr [2] [1 / 2, 1 / 2]) \<and>
   run_arrays gain_bank two_node (arr [2] [1, 0]) 3 2 even
     (arr [2, 2] [1, 2, 0, 0]) (arr [2, 3, 2] [1, 2, - 1, - 2, 1, 2, - 1, - 2, 1, 2, - 1, - 2])
     (arr [2] [1, 4]) (arr [2] [2, 8]) \<and>
   finite_nd (arr [2] [1, 4]) \<and> finite_nd (arr [2] [2, 8]) \<and> nondegenerate (arr [2] [2, 8]) \<and>
   list_all fl_nonneg (data (arr [2] [1 / 2, 1 / 2]))"
proof -
  let ?rf = "arr [2, 3, 2] [1, 2, - 1, - 2, 1, 2, - 1, - 2, 1, 2, - 1, - 2]"
  have h1: "returned (estimate_graph_psd gain_bank two_node (arr [2] [1, 0]) 3 2 even)
              = Inr (arr [2] [0, 2], arr [2] [1 / 2, 1 / 2])"
    by code_simp
  have h2: "run_arrays gain_bank two_node (arr [2] [1, 0]) 3 2 even
              (arr [2, 2] [1, 2, 0, 0]) ?rf (arr [2] [1, 4]) (arr [2] [2, 8])"
    by code_simp
  have h3: "finite_nd (arr [2] [1, 4])" by code_simp
  have h4: "finite_nd (arr [2] [2, 8])" by code_simp
  have h5: "nondegenerate (arr [2] [2, 8])" by code_simp
  from psd_nonnegative[OF h1 h2 h3 h4 h5] h1 h2 h3 h4 h5 show ?thesis
    by (intro conjI)
qed

text \<open>
  C8.  If the signal is zero, the library answers it with an array of zeros that
  has no empty axis (as a linear filter does) and no reference energy is zero or
  \<open>nan\<close>, then every entry of a returned psd is zero: the signal energies are sums and
  means of zeros.  Nothing is assumed about the shapes of the arrays the library
  returns.
\<close>

theorem zero_signal_psd:
  assumes "returned (estimate_graph_psd pg graph signal n_rand n_point st) = Inr (spectrum, psd)"
    and "run_arrays pg graph signal n_rand n_point st sf rf sd ed"
    and "zero_nd signal" "zero_nd sf" "0 \<notin> set (shape sf)"
    and "usable_divisors ed"
  shows "zero_nd psd"
proof -
  let ?Z = "\<lambda>x. x = Fin 0"
  from assms(2) have wsf: "wf_nd sf" and wrf: "wf_nd rf"
    and sd: "sig_dist sf = Inr sd" and ed: "eig_dist rf = Inr ed"
    by (simp_all add: run_arrays_def)
  have dv: "true_divide sd ed = Inr psd" using run_parts[OF assms(1,2)] by simp
  have z: "\<And>x. x \<in> set (data sf) \<Longrightarrow> fl_mul x x = Fin 0"
    using assms(4) by (auto simp: zero_nd_def list_all_iff fl_mul_def)
  have d: "\<And>d x. d \<in> set (shape sf) \<Longrightarrow> x = Fin 0 \<Longrightarrow> fl_div x (Fin (real d)) = Fin 0"
    using assms(5) by (auto simp: fl_div_def)
  have s: "wf_nd sd \<and> list_all ?Z (data sd)"
    by (rule sig_dist_closed[of sf ?Z, OF wsf z _ _ d sd]) (simp_all add: fl_add_def)
  have e: "wf_nd ed \<and> list_all (\<lambda>x. True) (data ed)"
    by (rule eig_dist_closed[of rf "\<lambda>x. True", OF wrf _ _ _ _ ed]) simp_all
  have r: "list_all (\<lambda>y. y \<noteq> Fin 0 \<and> y \<noteq> NaN) (data ed)"
    using assms(6) by (simp add: usable_divisors_def)
  have "list_all ?Z (data psd)"
    by (rule true_divide_entries[of sd ed psd ?Z "\<lambda>y. y \<noteq> Fin 0 \<and> y \<noteq> NaN" ?Z])
       (use s e dv r in \<open>simp_all add: zero_dividend\<close>)
  then show ?thesis by (simp add: zero_nd_def)
qed

theorem zero_signal_psd_witness:
  "returned (estimate_graph_psd gain_bank two_node (arr [2] [0, 0]) 3 2 even)
     = Inr (arr [2] [0, 2], arr [2] [0, 0]) \<and>
   run_arrays gain_bank two_node (arr [2] [0, 0]) 3 2 even
     (arr [2, 2] [0, 0, 0, 0]) (arr [2, 3, 2] [1, 2, - 1, - 2, 1, 2, - 1, - 2, 1, 2, - 1, - 2])
     (arr [2] [0, 0]) (arr [2] [2, 8]) \<and>
   zero_nd (arr [2] [0, 0]) \<and> zero_nd (arr [2, 2] [0, 0, 0, 0]) \<and>
   0 \<notin> set (shape (arr [2, 2] [0, 0, 0, 0])) \<and> usable_divisors (arr [2] [2, 8]) \<and>
   zero_nd (arr [2] [0, 0])"
proof -
  let ?rf = "arr [2, 3, 2] [1, 2, - 1, - 2, 1, 2, - 1, - 2, 1, 2, - 1, - 2]"
  have h1: "returned (estimate_graph_psd gain_bank two_node (arr [2] [0, 0]) 3 2 even)
              = Inr (arr [2] [0, 2], arr [2] [0, 0])"
    by code_simp
  have h2: "run_arrays gain_bank two_node (arr [2] [0, 0]) 3 2 even
              (arr [2, 2] [0, 0, 0, 0]) ?rf (arr [2] [0, 0]) (arr [2] [2, 8])"
    by code_simp
  have h3: "zero_nd (arr [2] [0, 0])" by code_simp
  have h4: "zero_nd (arr [2, 2] [0, 0, 0, 0])" by code_simp
  have h5: "0 \<notin> set (shape (arr [2, 2] [0, 0, 0, 0]))" by code_simp
  have h6: "usable_divisors (arr [2] [2, 8])" by code_simp
  from zero_signal_psd[OF h1 h2 h3 h4 h5 h6] h1 h2 h3 h4 h5 h6 show ?thesis
    by (intro conjI)
qed

text \<open>
  The probe ensemble.  For \<open>n_rand >= 0\<close> the ensemble has shape \<open>N x n_rand\<close>; its
  entry at position \<open>m\<close> is \<open>+1\<close> when the generator's \<open>m\<close>-th next outcome is 1 and
  \<open>-1\<close> when it is 0, so every entry is \<open>-1\<close> or \<open>+1\<close>; and the generator is left
  advanced by \<open>N * n_rand\<close> outcomes, so that the next call draws new ones.  That the
  outcomes are independent and fair is a property of numpy's generator and lies
  outside this model, which has no probabilities.
\<close>

theorem probe_ensemble:
  assumes "0 \<le> n_rand"
  shows "\<exists>probe.
           rand_sig nodes n_rand st = Inr (probe, \<lambda>m. st (m + nodes * nat n_rand)) \<and>
           shape probe = [nodes, nat n_rand] \<and>
           length (data probe) = nodes * nat n_rand \<and>
           (\<forall>m < nodes * nat n_rand. data probe ! m = (if st m then Fin 1 else Fin (- 1))) \<and>
           list_all (\<lambda>x. x = Fin 1 \<or> x = Fin (- 1)) (data probe)"
proof -
  let ?c = "nodes * nat n_rand"
  let ?probe = "\<lparr>shape = [nodes, nat n_rand],
                 data = map (\<lambda>m. if st m then Fin 1 else Fin (- 1)) [0..<?c]\<rparr>"
  have "rand_sig nodes n_rand st = Inr (?probe, \<lambda>m. st (m + ?c))"
    using assms
    by (simp add: rand_sig_def binomial_def times2_minus1_def Let_def times2_minus1_entry
        comp_def)
  moreover have "list_all (\<lambda>x. x = Fin 1 \<or> x = Fin (- 1)) (data ?probe)"
    by (auto simp: list_all_iff)
  moreover have "\<forall>m < ?c. data ?probe ! m = (if st m then Fin 1 else Fin (- 1))"
    by simp
  ultimately show ?thesis
    by (intro exI[of _ ?probe]) simp
qed

theorem probe_ensemble_witness:
  "(0 :: int) \<le> 2 \<and>
   (\<exists>probe st'. rand_sig 2 2 (\<lambda>m. m \<noteq> 3) = Inr (probe, st') \<and>
      shape probe = [2, 2] \<and> data probe ! 0 = Fin 1 \<and> data probe ! 3 = Fin (- 1))"
proof -
  have h: "(0 :: int) \<le> 2" by simp
  from probe_ensemble[OF h, of 2 "\<lambda>m. m \<noteq> 3"] obtain probe where
    r: "rand_sig 2 2 (\<lambda>m. m \<noteq> 3) = Inr (probe, \<lambda>m. m + 2 * nat 2 \<noteq> 3)"
    and s: "shape probe = [2, nat 2]"
    and v: "\<forall>m < 2 * nat 2. data probe ! m = (if m \<noteq> 3 then Fin 1 else Fin (- 1))"
    by blast
  have "data probe ! 0 = Fin 1" "data probe ! 3 = Fin (- 1)" using v by simp_all
  with r s h show ?thesis by auto
qed

text \<open>
  A single probe.  If the library answers a vector signal with an \<open>N x n_point\<close>
  array and the probes with an array of the two axes nodes and bands only (as a
  library that squeezes its result does for \<open>n_rand = 1\<close>), the mean along axis 0 of
  the probe energies runs over the bands: every psd entry is the signal energy of its
  band divided by one and the same number, the mean over the bands of the per-band
  probe energies.
\<close>

theorem squeezed_probe_axis:
  assumes "0 \<le> n_point"
    and "filters_to pg graph signal n_rand n_point st sf rf"
    and "wf_nd sf" "shape sf = [n, nat n_point]"
    and "wf_nd rf" "shape rf = [n', nat n_point]"
  shows "\<exists>spectrum.
           returned (estimate_graph_psd pg graph signal n_rand n_point st) =
             Inr (spectrum,
                  \<lparr>shape = [nat n_point],
                   data = map (\<lambda>i. fl_div (energy2 sf i)
                                 (fl_div (fl_sum (map (energy2 rf) [0..<nat n_point]))
                                    (Fin (real (nat n_point)))))
                            [0..<nat n_point]\<rparr>)"
proof -
  let ?p = "nat n_point"
  obtain g probe st' where g: "Itersine pg graph n_point 2 = Inr g"
    and fs: "filter_cheby pg g signal (2 * n_point) = Inr sf"
    and rs: "rand_sig (N graph) n_rand st = Inr (probe, st')"
    and fr: "filter_cheby pg g probe (2 * n_point) = Inr rf"
    using assms(2) by (auto simp: filters_to_def split: sum.splits)
  obtain spectrum where sp: "linspace 0 (lmax graph) n_point = Inr spectrum"
    using linspace_returns[OF assms(1)] by blast
  have e: "signal_energy sf = energy2 sf"
    by (rule ext) (simp add: signal_energy_def ndim_def assms(4))
  have sd: "sig_dist sf = Inr \<lparr>shape = [?p], data = map (energy2 sf) [0..<?p]\<rparr>"
    using sig_dist_vector[OF assms(3,4)] by (simp only: e)
  have ed: "eig_dist rf =
      Inr \<lparr>shape = [], data = [fl_div (fl_sum (map (energy2 rf) [0..<?p])) (Fin (real ?p))]\<rparr>"
    by (rule eig_dist_two_axes[OF assms(5,6)])
  have "map (\<lambda>i. fl_div (map (energy2 sf) [0..<?p] ! i)
                 (fl_div (fl_sum (map (energy2 rf) [0..<?p])) (Fin (real ?p)))) [0..<?p]
        = map (\<lambda>i. fl_div (energy2 sf i)
                 (fl_div (fl_sum (map (energy2 rf) [0..<?p])) (Fin (real ?p)))) [0..<?p]"
    by (rule map_cong[OF refl]) simp
  then have "true_divide \<lparr>shape = [?p], data = map (energy2 sf) [0..<?p]\<rparr>
      \<lparr>shape = [], data = [fl_div (fl_sum (map (energy2 rf) [0..<?p])) (Fin (real ?p))]\<rparr>
    = Inr \<lparr>shape = [?p],
           data = map (\<lambda>i. fl_div (energy2 sf i)
                      (fl_div (fl_sum (map (energy2 rf) [0..<?p])) (Fin (real ?p)))) [0..<?p]\<rparr>"
    by (simp add: true_divide_scalar)
  then show ?thesis
    by (simp add: estimate_graph_psd_def returned_def g sp fs sd rs fr ed)
qed

theorem squeezed_probe_axis_witness:
  "(0 :: int) \<le> 2 \<and>
   filters_to gain_bank two_node (arr [2] [1, 0]) 1 2 even
     (arr [2, 2] [1, 2, 0, 0]) (arr [2, 2] [1, 2, - 1, - 2]) \<and>
   wf_nd (arr [2, 2] [1, 2, 0, 0]) \<and>
   shape (arr [2, 2] [1, 2, 0, 0]) = [2, nat 2] \<and>
   wf_nd (arr [2, 2] [1, 2, - 1, - 2]) \<and>
   shape (arr [2, 2] [1, 2, - 1, - 2]) = [2, nat 2] \<and>
   (\<exists>spectrum.
      returned (estimate_graph_psd gain_bank two_node (arr [2] [1, 0]) 1 2 even)
        = Inr (spectrum, \<lparr>shape = [2], data = [Fin (1 / 5), Fin (4 / 5)]\<rparr>))"
proof -
  let ?sf = "arr [2, 2] [1, 2, 0, 0]"
  let ?rf = "arr [2, 2] [1, 2, - 1, - 2]"
  have h1: "(0 :: int) \<le> 2" by simp
  have h2: "filters_to gain_bank two_node (arr [2] [1, 0]) 1 2 even ?sf ?rf"
    by code_simp
  have h3: "wf_nd ?sf" by code_simp
  have h4: "shape ?sf = [2, nat 2]" by code_simp
  have h5: "wf_nd ?rf" by code_simp
  have h6: "shape ?rf = [2, nat 2]" by code_simp
  have e: "\<lparr>shape = [nat 2],
            data = map (\<lambda>i. fl_div (energy2 ?sf i)
                          (fl_div (fl_sum (map (energy2 ?rf) [0..<nat 2])) (Fin (real (nat 2)))))
                     [0..<nat 2]\<rparr>
           = \<lparr>shape = [2], data = [Fin (1 / 5), Fin (4 / 5)]\<rparr>"
    by code_simp
  from squeezed_probe_axis[OF h1 h2 h3 h4 h5 h6] have "\<exists>spectrum.
      returned (estimate_graph_psd gain_bank two_node (arr [2] [1, 0]) 1 2 even)
        = Inr (spectrum, \<lparr>shape = [2], data = [Fin (1 / 5), Fin (4 / 5)]\<rparr>)"
    unfolding e .
  with h1 h2 h3 h4 h5 h6 show ?thesis by (intro conjI)
qed

text \<open>
  The energy ratio.  With \<open>n_point >= 2\<close>, if the library answers the signal with
  an \<open>N x n_point\<close> array (a vector) or an \<open>N x k x n_point\<close> array (a batch) and the
  probes with an \<open>N x r x n_point\<close> array, the call returns and entry \<open>i\<close> of the psd
  is the signal energy of band \<open>i\<close> divided by the reference energy of band \<open>i\<close>, as
  the specification words them.
\<close>

theorem psd_is_energy_ratio:
  assumes "2 \<le> n_point"
    and "filters_to pg graph signal n_rand n_point st sf rf"
    and "wf_nd sf" "shape sf = [n, nat n_point] \<or> shape sf = [n, k, nat n_point]"
    and "wf_nd rf" "shape rf = [n', r, nat n_point]"
  shows "\<exists>spectrum.
           returned (estimate_graph_psd pg graph signal n_rand n_point st) =
             Inr (spectrum,
                  \<lparr>shape = [nat n_point],
                   data = map (\<lambda>i. fl_div (signal_energy sf i) (reference_energy rf i))
                            [0..<nat n_point]\<rparr>)"
proof -
  have np: "0 \<le> n_point" and two: "nat n_point \<noteq> 1" using assms(1) by simp_all
  obtain spectrum where sp: "linspace 0 (lmax graph) n_point = Inr spectrum"
    using linspace_returns[OF np] by blast
  from run[OF np assms(2-6) sp] two show ?thesis by auto
qed

theorem psd_is_energy_ratio_witness:
  "(2 :: int) \<le> 2 \<and>
   filters_to gain_bank two_node (arr [2, 3] [1, 0, 2, 0, 1, 2]) 3 2 even
     (arr [2, 3, 2] [1, 2, 0, 0, 2, 4, 0, 0, 1, 2, 2, 4])
     (arr [2, 3, 2] [1, 2, - 1, - 2, 1, 2, - 1, - 2, 1, 2, - 1, - 2]) \<and>
   wf_nd (arr [2, 3, 2] [1, 2, 0, 0, 2, 4, 0, 0, 1, 2, 2, 4]) \<and>
   shape (arr [2, 3, 2] [1, 2, 0, 0, 2, 4, 0, 0, 1, 2, 2, 4]) = [2, 3, nat 2] \<and>
   wf_nd (arr [2, 3, 2] [1, 2, - 1, - 2, 1, 2, - 1, - 2, 1, 2, - 1, - 2]) \<and>
   shape (arr [2, 3, 2] [1, 2, - 1, - 2, 1, 2, - 1, - 2, 1, 2, - 1, - 2]) = [2, 3, nat 2] \<and>
   (\<exists>spectrum.
      returned (estimate_graph_psd gain_bank two_node (arr [2, 3] [1, 0, 2, 0, 1, 2]) 3 2 even)
        = Inr (spectrum, \<lparr>shape = [2], data = [Fin (5 / 3), Fin (5 / 3)]\<rparr>))"
proof -
  let ?s = "arr [2, 3] [1, 0, 2, 0, 1, 2]"
  let ?sf = "arr [2, 3, 2] [1, 2, 0, 0, 2, 4, 0, 0, 1, 2, 2, 4]"
  let ?rf = "arr [2, 3, 2] [1, 2, - 1, - 2, 1, 2, - 1, - 2, 1, 2, - 1, - 2]"
  have h1: "(2 :: int) \<le> 2" by simp
  have h2: "filters_to gain_bank two_node ?s 3 2 even ?sf ?rf" by code_simp
  have h3: "wf_nd ?sf" by code_simp
  have h4: "shape ?sf = [2, 3, nat 2]" by code_simp
  have h4': "shape ?sf = [2, nat 2] \<or> shape ?sf = [2, 3, nat 2]" using h4 by simp
  have h5: "wf_nd ?rf" by code_simp
  have h6: "shape ?rf = [2, 3, nat 2]" by code_simp
  have e: "\<lparr>shape = [nat 2],
            data = map (\<lambda>i. fl_div (signal_energy ?sf i) (reference_energy ?rf i)) [0..<nat 2]\<rparr>
           = \<lparr>shape = [2], data = [Fin (5 / 3), Fin (5 / 3)]\<rparr>"
    by code_simp
  from psd_is_energy_ratio[OF h1 h2 h3 h4' h5 h6] have "\<exists>spectrum.
      returned (estimate_graph_psd gain_bank two_node ?s 3 2 even)
        = Inr (spectrum, \<lparr>shape = [2], data = [Fin (5 / 3), Fin (5 / 3)]\<rparr>)"
    unfolding e .
  with h1 h2 h3 h4 h5 h6 show ?thesis by (intro conjI)
qed

text \<open>
  Scaling.  With the generator state held fixed, if a call returns and the library
  answers the scaled signal \<open>c * signal\<close> with the scaled array \<open>c * sf\<close> (filtering
  is linear), then the call on \<open>c * signal\<close> returns the same spectrum and \<open>c^2\<close>
  times the psd, entry by entry, for every real \<open>c\<close> and whatever the shapes of the
  arrays the library returns.  The entries of the model are exact reals and the IEEE
  special values, so this is the relation the rounded results of the program
  approximate.
\<close>

theorem psd_scales_quadratically:
  assumes "returned (estimate_graph_psd pg graph signal n_rand n_point st) = Inr (spectrum, psd)"
    and "filters_to pg graph signal n_rand n_point st sf rf"
    and "filters_to pg graph (scale c signal) n_rand n_point st (scale c sf) rf"
    and "wf_nd sf"
  shows "returned (estimate_graph_psd pg graph (scale c signal) n_rand n_point st)
           = Inr (spectrum, scale (c\<^sup>2) psd)"
proof -
  obtain g probe st' where g: "Itersine pg graph n_point 2 = Inr g"
    and fs: "filter_cheby pg g signal (2 * n_point) = Inr sf"
    and rs: "rand_sig (N graph) n_rand st = Inr (probe, st')"
    and fr: "filter_cheby pg g probe (2 * n_point) = Inr rf"
    using assms(2) by (auto simp: filters_to_def split: sum.splits)
  have fs': "filter_cheby pg g (scale c signal) (2 * n_point) = Inr (scale c sf)"
    using assms(3) by (auto simp: filters_to_def g split: sum.splits)
  from assms(1) obtain sd ed where sp: "linspace 0 (lmax graph) n_point = Inr spectrum"
    and sd: "sig_dist sf = Inr sd" and ed: "eig_dist rf = Inr ed"
    and dv: "true_divide sd ed = Inr psd"
    by (auto simp: estimate_graph_psd_def returned_def g fs rs fr split: sum.splits)
  have sd': "sig_dist (scale c sf) = Inr (scale (c\<^sup>2) sd)"
    using sig_dist_scale[OF assms(4) sd] by (simp add: power2_eq_square)
  have dv': "true_divide (scale (c\<^sup>2) sd) ed = Inr (scale (c\<^sup>2) psd)"
    by (rule true_divide_scale[OF sig_dist_wf[OF assms(4) sd] dv])
  show ?thesis
    by (simp add: estimate_graph_psd_def returned_def g sp fs' sd' rs fr ed dv')
qed

theorem psd_scales_quadratically_witness:
  "returned (estimate_graph_psd gain_bank two_node (arr [2] [1, 0]) 3 2 even)
     = Inr (arr [2] [0, 2], arr [2] [1 / 2, 1 / 2]) \<and>
   filters_to gain_bank two_node (arr [2] [1, 0]) 3 2 even (arr [2, 2] [1, 2, 0, 0])
     (arr [2, 3, 2] [1, 2, - 1, - 2, 1, 2, - 1, - 2, 1, 2, - 1, - 2]) \<and>
   filters_to gain_bank two_node (scale 3 (arr [2] [1, 0])) 3 2 even
     (scale 3 (arr [2, 2] [1, 2, 0, 0]))
     (arr [2, 3, 2] [1, 2, - 1, - 2, 1, 2, - 1, - 2, 1, 2, - 1, - 2]) \<and>
   wf_nd (arr [2, 2] [1, 2, 0, 0]) \<and>
   returned (estimate_graph_psd gain_bank two_node (scale 3 (arr [2] [1, 0])) 3 2 even)
     = Inr (arr [2] [0, 2], scale (3\<^sup>2) (arr [2] [1 / 2, 1 / 2]))"
proof -
  let ?s = "arr [2] [1, 0]"
  let ?sf = "arr [2, 2] [1, 2, 0, 0]"
  let ?rf = "arr [2, 3, 2] [1, 2, - 1, - 2, 1, 2, - 1, - 2, 1, 2, - 1, - 2]"
  have h1: "returned (estimate_graph_psd gain_bank two_node ?s 3 2 even)
              = Inr (arr [2] [0, 2], arr [2] [1 / 2, 1 / 2])" by code_simp
  have h2: "filters_to gain_bank two_node ?s 3 2 even ?sf ?rf" by code_simp
  have h3: "filters_to gain_bank two_node (scale 3 ?s) 3 2 even (scale 3 ?sf) ?rf" by code_simp
  have h4: "wf_nd ?sf" by code_simp
  from psd_scales_quadratically[OF h1 h2 h3 h4] h1 h2 h3 h4 show ?thesis
    by (intro conjI)
qed

end
